theory Spec2Isabelle
  imports Main "HOL-Library.Word"
begin

section \<open>Strings, thrown values and the event trace\<close>

text \<open>
  A JavaScript string is a sequence of 16-bit code units. String literals of the source are
  written through \<open>js\<close>, which maps every character of an ASCII literal to its code unit.
\<close>

type_synonym jsstring = "16 word list"

definition js :: "string \<Rightarrow> jsstring" where
  "js s = map (\<lambda>c. of_nat (of_char c)) s"

text \<open>\<open>String.prototype.includes\<close>: the needle occurs as a contiguous run of the string.\<close>

fun starts_with :: "'a list \<Rightarrow> 'a list \<Rightarrow> bool" where
  "starts_with s [] = True"
| "starts_with [] (p # ps) = False"
| "starts_with (c # cs) (p # ps) = (c = p \<and> starts_with cs ps)"

fun str_includes :: "'a list \<Rightarrow> 'a list \<Rightarrow> bool" where
  "str_includes [] p = starts_with [] p"
| "str_includes (c # cs) p = (starts_with (c # cs) p \<or> str_includes cs p)"

text \<open>Template-literal rendering of a non-negative integer (\<open>${response.status}\<close>).\<close>

function digits10 :: "nat \<Rightarrow> jsstring" where
  "digits10 n = (if n < 10 then [of_nat (48 + n)] else digits10 (n div 10) @ [of_nat (48 + n mod 10)])"
  by pat_completeness auto
termination
  by (relation "measure id") auto

declare digits10.simps [simp del]

text \<open>
  A thrown value is either \<open>undefined\<close> or an error object, of which only the message is
  read by the code (\<open>error.message\<close>).
\<close>

datatype jsthrown = Undefined | JSError (message: jsstring)

text \<open>The options object handed to \<open>fetch\<close>.\<close>

record fetch_options =
  opt_method :: jsstring
  opt_mode :: jsstring
  opt_headers :: "(jsstring \<times> jsstring) list"

text \<open>
  What the code reads of a \<open>Response\<close>: status, status text, the Content-Type header
  (\<open>None\<close> for \<open>null\<close>) and the outcome of \<open>arrayBuffer()\<close>, which may reject.
\<close>

record response =
  status :: nat
  statusText :: jsstring
  contentTypeHeader :: "jsstring option"
  arrayBuffer :: "jsthrown + 8 word list"

definition ok :: "response \<Rightarrow> bool" where
  "ok r = (200 \<le> status r \<and> status r \<le> 299)"

text \<open>
  Observable effects, in the order they happen: progress callbacks, network requests and
  timer waits (milliseconds). Console output is not modelled.
\<close>

datatype event =
    Progress nat jsstring "jsstring option"
  | FetchCall jsstring fetch_options
  | Sleep nat

fun is_fetch :: "event \<Rightarrow> bool" where
  "is_fetch (FetchCall u opts) = True"
| "is_fetch e = False"

definition fetches :: "event list \<Rightarrow> nat" where
  "fetches tr = length (filter is_fetch tr)"


fun percentages :: "event list \<Rightarrow> nat list" where
  "percentages [] = []"
| "percentages (Progress p m u # tr) = p # percentages tr"
| "percentages (e # tr) = percentages tr"

text \<open>
  The network is an oracle: the outcome of the \<open>k\<close>-th call of \<open>fetch\<close> (counted from 0
  over the whole trace) for a URL and options is either a rejection (a transport-level
  failure) or a completed response, whatever its status.
\<close>

type_synonym network = "nat \<Rightarrow> jsstring \<Rightarrow> fetch_options \<Rightarrow> jsthrown + response"

definition fetch :: "network \<Rightarrow> jsstring \<Rightarrow> fetch_options \<Rightarrow> event list
    \<Rightarrow> (jsthrown + response) \<times> event list" where
  "fetch net url opts tr = (net (fetches tr) url opts, tr @ [FetchCall url opts])"

section \<open>fetchWithRetry\<close>

text \<open>
  The \<open>for\<close> loop of \<open>fetchWithRetry\<close>, from the state (attempt, lastError, trace). A
  completed response returns at once; a rejection is recorded as \<open>lastError\<close>, followed by a
  wait of \<open>attempt * 1000\<close> ms unless this was the last attempt.
\<close>

function fetchWithRetry_loop :: "network \<Rightarrow> jsstring \<Rightarrow> fetch_options \<Rightarrow> int \<Rightarrow> int
    \<Rightarrow> jsthrown \<Rightarrow> event list \<Rightarrow> (jsthrown + response) \<times> event list" where
  "fetchWithRetry_loop net url opts maxRetries attempt lastError tr =
     (if attempt \<le> maxRetries then
        (case fetch net url opts tr of
           (Inr response, tr1) \<Rightarrow> (Inr response, tr1)
         | (Inl error, tr1) \<Rightarrow>
             fetchWithRetry_loop net url opts maxRetries (attempt + 1) error
               (if attempt < maxRetries then tr1 @ [Sleep (nat (attempt * 1000))] else tr1))
      else (Inl lastError, tr))"
  by pat_completeness auto
termination
  by (relation "measure (\<lambda>(net, url, opts, maxRetries, attempt, lastError, tr).
        nat (maxRetries + 1 - attempt))") auto

declare fetchWithRetry_loop.simps [simp del]

definition fetchWithRetry :: "network \<Rightarrow> jsstring \<Rightarrow> fetch_options \<Rightarrow> int \<Rightarrow> event list
    \<Rightarrow> (jsthrown + response) \<times> event list" where
  "fetchWithRetry net url opts maxRetries tr =
     fetchWithRetry_loop net url opts maxRetries 1 Undefined tr"



section \<open>URI encoding and decoding of the JavaScript runtime\<close>

text \<open>
  \<open>encodeS3Key\<close> calls the built-in functions \<open>decodeURIComponent\<close> and
  \<open>encodeURIComponent\<close>. They are modelled after the abstract operations \<open>Decode\<close> and
  \<open>Encode\<close> of the ECMAScript language specification: strings are UTF-16, escapes are
  the UTF-8 octets of a code point, and every failure is a \<open>URIError\<close>.
\<close>

definition URIError :: jsthrown where
  "URIError = JSError (js ''URI malformed'')"

definition is_lead_surrogate :: "16 word \<Rightarrow> bool" where
  "is_lead_surrogate c = (0xD800 \<le> c \<and> c \<le> 0xDBFF)"

definition is_trail_surrogate :: "16 word \<Rightarrow> bool" where
  "is_trail_surrogate c = (0xDC00 \<le> c \<and> c \<le> 0xDFFF)"

definition surrogate_pair_value :: "16 word \<Rightarrow> 16 word \<Rightarrow> nat" where
  "surrogate_pair_value c d = (unat c - 0xD800) * 0x400 + (unat d - 0xDC00) + 0x10000"

text \<open>\<open>UTF16EncodeCodePoint\<close>.\<close>

definition utf16_encode :: "nat \<Rightarrow> jsstring" where
  "utf16_encode v =
     (if v \<le> 0xFFFF then [of_nat v]
      else [of_nat ((v - 0x10000) div 0x400 + 0xD800), of_nat ((v - 0x10000) mod 0x400 + 0xDC00)])"

text \<open>The UTF-8 transformation of a code point into one to four octets.\<close>

definition utf8_encode :: "nat \<Rightarrow> nat list" where
  "utf8_encode v =
     (if v < 0x80 then [v]
      else if v < 0x800 then [0xC0 + v div 0x40, 0x80 + v mod 0x40]
      else if v < 0x10000 then [0xE0 + v div 0x1000, 0x80 + v div 0x40 mod 0x40, 0x80 + v mod 0x40]
      else [0xF0 + v div 0x40000, 0x80 + v div 0x1000 mod 0x40, 0x80 + v div 0x40 mod 0x40,
            0x80 + v mod 0x40])"

text \<open>
  The inverse transformation, defined on well-formed sequences only: continuation octets
  lie in 80..BF, and overlong forms, surrogates and values above 10FFFF are refused.
\<close>

definition is_continuation :: "nat \<Rightarrow> bool" where
  "is_continuation b = (0x80 \<le> b \<and> b \<le> 0xBF)"

fun utf8_decode :: "nat list \<Rightarrow> nat option" where
  "utf8_decode [b0, b1] =
     (let v = (b0 - 0xC0) * 0x40 + (b1 - 0x80)
      in if 0xC0 \<le> b0 \<and> b0 < 0xE0 \<and> is_continuation b1 \<and> 0x80 \<le> v then Some v else None)"
| "utf8_decode [b0, b1, b2] =
     (let v = (b0 - 0xE0) * 0x1000 + (b1 - 0x80) * 0x40 + (b2 - 0x80)
      in if 0xE0 \<le> b0 \<and> b0 < 0xF0 \<and> is_continuation b1 \<and> is_continuation b2
            \<and> 0x800 \<le> v \<and> \<not> (0xD800 \<le> v \<and> v \<le> 0xDFFF) then Some v else None)"
| "utf8_decode [b0, b1, b2, b3] =
     (let v = (b0 - 0xF0) * 0x40000 + (b1 - 0x80) * 0x1000 + (b2 - 0x80) * 0x40 + (b3 - 0x80)
      in if 0xF0 \<le> b0 \<and> b0 < 0xF8 \<and> is_continuation b1 \<and> is_continuation b2
            \<and> is_continuation b3 \<and> 0x10000 \<le> v \<and> v \<le> 0x10FFFF then Some v else None)"
| "utf8_decode bs = None"

text \<open>Hexadecimal digits: upper case on output, either case on input.\<close>

definition hex_digit_upper :: "nat \<Rightarrow> 16 word" where
  "hex_digit_upper d = (if d < 10 then of_nat (0x30 + d) else of_nat (0x41 + (d - 10)))"

definition hex_value :: "16 word \<Rightarrow> nat option" where
  "hex_value c =
     (let n = unat c
      in if 0x30 \<le> n \<and> n \<le> 0x39 then Some (n - 0x30)
         else if 0x41 \<le> n \<and> n \<le> 0x46 then Some (n - 0x41 + 10)
         else if 0x61 \<le> n \<and> n \<le> 0x66 then Some (n - 0x61 + 10)
         else None)"

definition percent_octet :: "nat \<Rightarrow> jsstring" where
  "percent_octet b = [0x25, hex_digit_upper (b div 16), hex_digit_upper (b mod 16)]"

text \<open>
  The set \<open>uriUnescaped\<close> of \<open>encodeURIComponent\<close>: letters, digits and the marks
  \<open>- _ . ! ~ * ' ( )\<close>.
\<close>

definition uriUnescaped :: "16 word \<Rightarrow> bool" where
  "uriUnescaped c =
     (let n = unat c
      in (0x41 \<le> n \<and> n \<le> 0x5A) \<or> (0x61 \<le> n \<and> n \<le> 0x7A) \<or> (0x30 \<le> n \<and> n \<le> 0x39)
         \<or> n \<in> {0x2D, 0x5F, 0x2E, 0x21, 0x7E, 0x2A, 0x27, 0x28, 0x29})"

text \<open>
  \<open>Encode\<close>: an unescaped code unit is copied; any other is read as a code point (a lead
  surrogate with the trail surrogate after it), whose UTF-8 octets are written as
  \<open>%XX\<close>. An unpaired surrogate throws.
\<close>

fun encodeURIComponent :: "jsstring \<Rightarrow> jsthrown + jsstring" where
  "encodeURIComponent [] = Inr []"
| "encodeURIComponent (c # cs) =
     (if uriUnescaped c then
        (case encodeURIComponent cs of Inl e \<Rightarrow> Inl e | Inr r \<Rightarrow> Inr (c # r))
      else if is_lead_surrogate c then
        (case cs of
           [] \<Rightarrow> Inl URIError
         | d # ds \<Rightarrow>
             if is_trail_surrogate d then
               (case encodeURIComponent ds of
                  Inl e \<Rightarrow> Inl e
                | Inr r \<Rightarrow>
                    Inr (concat (map percent_octet (utf8_encode (surrogate_pair_value c d))) @ r))
             else Inl URIError)
      else if is_trail_surrogate c then Inl URIError
      else
        (case encodeURIComponent cs of
           Inl e \<Rightarrow> Inl e
         | Inr r \<Rightarrow> Inr (concat (map percent_octet (utf8_encode (unat c))) @ r)))"

text \<open>\<open>ParseHexOctet\<close> behind a percent sign, at the start of the string.\<close>

fun parse_escape :: "jsstring \<Rightarrow> nat option" where
  "parse_escape (p # h1 # h2 # rest) =
     (if unat p = 0x25 then
        (case hex_value h1 of
           None \<Rightarrow> None
         | Some a \<Rightarrow> (case hex_value h2 of None \<Rightarrow> None | Some b \<Rightarrow> Some (16 * a + b)))
      else None)"
| "parse_escape s = None"

text \<open>The \<open>n\<close> continuation escapes that follow the first octet of a sequence.\<close>

fun parse_escapes :: "nat \<Rightarrow> jsstring \<Rightarrow> nat list option" where
  "parse_escapes 0 s = Some []"
| "parse_escapes (Suc n) s =
     (case parse_escape s of
        None \<Rightarrow> None
      | Some b \<Rightarrow> (case parse_escapes n (drop 3 s) of None \<Rightarrow> None | Some bs \<Rightarrow> Some (b # bs)))"

text \<open>The number of leading 1 bits of an octet.\<close>

definition leading_ones :: "nat \<Rightarrow> nat" where
  "leading_ones b =
     (if b < 0x80 then 0 else if b < 0xC0 then 1 else if b < 0xE0 then 2 else if b < 0xF0 then 3
      else if b < 0xF8 then 4 else 5)"

text \<open>
  \<open>Decode\<close> with an empty set of preserved escapes: a code unit other than the percent
  sign is copied; an escape below 80 gives that code unit; an escape with \<open>n\<close> leading 1
  bits, \<open>n\<close> from 2 to 4, is read with its \<open>n - 1\<close> continuation escapes as one code point.
  The position moves past the three code units of every escape read.
\<close>

fun decodeURIComponent :: "jsstring \<Rightarrow> jsthrown + jsstring" where
  "decodeURIComponent [] = Inr []"
| "decodeURIComponent (c # cs) =
     (if unat c \<noteq> 0x25 then
        (case decodeURIComponent cs of Inl e \<Rightarrow> Inl e | Inr r \<Rightarrow> Inr (c # r))
      else
        (case parse_escape (c # cs) of
           None \<Rightarrow> Inl URIError
         | Some b \<Rightarrow>
             if leading_ones b = 0 then
               (case decodeURIComponent (drop 2 cs) of
                  Inl e \<Rightarrow> Inl e
                | Inr r \<Rightarrow> Inr (of_nat b # r))
             else if leading_ones b = 1 \<or> 4 < leading_ones b then Inl URIError
             else
               (case parse_escapes (leading_ones b - 1) (drop 2 cs) of
                  None \<Rightarrow> Inl URIError
                | Some bs \<Rightarrow>
                    (case utf8_decode (b # bs) of
                       None \<Rightarrow> Inl URIError
                     | Some v \<Rightarrow>
                         (case decodeURIComponent (drop (2 + 3 * (leading_ones b - 1)) cs) of
                            Inl e \<Rightarrow> Inl e
                          | Inr r \<Rightarrow> Inr (utf16_encode v @ r))))))"

declare decodeURIComponent.simps(2) [simp del]

section \<open>encodeS3Key\<close>

text \<open>
  \<open>String.prototype.replace\<close> with a global regular expression: a character class with a
  replacement function, and a literal pattern with a literal replacement (matches are
  found from left to right and do not overlap).
\<close>

definition replace_class :: "16 word list \<Rightarrow> (16 word \<Rightarrow> jsstring) \<Rightarrow> jsstring \<Rightarrow> jsstring" where
  "replace_class cls f s = concat (map (\<lambda>c. if c \<in> set cls then f c else [c]) s)"

fun replace_all :: "jsstring \<Rightarrow> jsstring \<Rightarrow> jsstring \<Rightarrow> jsstring" where
  "replace_all pat rep [] = []"
| "replace_all pat rep (c # cs) =
     (if pat \<noteq> [] \<and> starts_with (c # cs) pat
      then rep @ replace_all pat rep (drop (length pat - 1) cs)
      else c # replace_all pat rep cs)"

text \<open>\<open>n.toString(16).toUpperCase()\<close>: the base-16 digits of \<open>n\<close>, without padding.\<close>

function toString16_upper :: "nat \<Rightarrow> jsstring" where
  "toString16_upper n =
     (if n < 16 then [hex_digit_upper n]
      else toString16_upper (n div 16) @ [hex_digit_upper (n mod 16)])"
  by pat_completeness auto
termination
  by (relation "measure id") auto

declare toString16_upper.simps [simp del]

text \<open>\<open>split('/')\<close> and \<open>join('/')\<close>; the split of the empty string is one empty part.\<close>

fun split_on :: "'a \<Rightarrow> 'a list \<Rightarrow> 'a list list" where
  "split_on sep [] = [[]]"
| "split_on sep (c # cs) =
     (if c = sep then [] # split_on sep cs
      else (case split_on sep cs of [] \<Rightarrow> [[c]] | p # ps \<Rightarrow> (c # p) # ps))"

fun join_with :: "'a \<Rightarrow> 'a list list \<Rightarrow> 'a list" where
  "join_with sep [] = []"
| "join_with sep [p] = p"
| "join_with sep (p # q # ps) = p @ sep # join_with sep (q # ps)"

text \<open>\<open>Array.prototype.map\<close> with a callback that may throw: the first throw ends the map.\<close>

fun map_throwing :: "('a \<Rightarrow> 'e + 'b) \<Rightarrow> 'a list \<Rightarrow> 'e + 'b list" where
  "map_throwing f [] = Inr []"
| "map_throwing f (x # xs) =
     (case f x of
        Inl e \<Rightarrow> Inl e
      | Inr y \<Rightarrow> (case map_throwing f xs of Inl e \<Rightarrow> Inl e | Inr ys \<Rightarrow> Inr (y # ys)))"

text \<open>
  The chain of replacements applied to an encoded part, in the order of the source:
  first the class \<open>! ' ( ) *\<close>, replaced by \<open>%\<close> and the upper-case base-16 digits of
  the character code, then the twelve literal patterns.
\<close>

definition slash :: "16 word" where
  "slash = 0x2F"

definition escape_marks :: "jsstring \<Rightarrow> jsstring" where
  "escape_marks s =
     replace_class [0x21, 0x27, 0x28, 0x29, 0x2A] (\<lambda>c. 0x25 # toString16_upper (unat c)) s"

definition escape_special :: "jsstring \<Rightarrow> jsstring" where
  "escape_special s =
     fold (\<lambda>(pat, rep). replace_all (js pat) (js rep))
       [(''('', ''%28''), ('')'', ''%29''), (''['', ''%5B''), ('']'', ''%5D''),
        (''{'', ''%7B''), (''}'', ''%7D''), (''#'', ''%23''), (''?'', ''%3F''),
        (''&'', ''%26''), (''='', ''%3D''), (''+'', ''%2B''), (''%20'', ''%20'')]
       (escape_marks s)"

definition encode_part :: "jsstring \<Rightarrow> jsthrown + jsstring" where
  "encode_part part =
     (case encodeURIComponent part of Inl e \<Rightarrow> Inl e | Inr s \<Rightarrow> Inr (escape_special s))"

definition decodedKey :: "jsstring \<Rightarrow> jsstring" where
  "decodedKey key = (case decodeURIComponent key of Inl e \<Rightarrow> key | Inr d \<Rightarrow> d)"

definition encodeS3Key :: "jsstring \<Rightarrow> jsthrown + jsstring" where
  "encodeS3Key key =
     (let pathParts = split_on slash (decodedKey key)
      in case map_throwing encode_part pathParts of
           Inl e \<Rightarrow> Inl e
         | Inr encodedParts \<Rightarrow> Inr (join_with slash encodedParts))"

text \<open>
  The code units that an encoded part consists of: letters, digits, \<open>- _ . ~\<close> and the
  percent sign.
\<close>

definition kept :: "16 word \<Rightarrow> bool" where
  "kept c =
     (let n = unat c
      in (0x41 \<le> n \<and> n \<le> 0x5A) \<or> (0x61 \<le> n \<and> n \<le> 0x7A) \<or> (0x30 \<le> n \<and> n \<le> 0x39)
         \<or> n \<in> {0x2D, 0x5F, 0x2E, 0x7E, 0x25})"

text \<open>The number of \<open>/\<close>-delimited segments of a key.\<close>

definition segments :: "jsstring \<Rightarrow> nat" where
  "segments s = length (split_on slash s)"

section \<open>createSigningKey\<close>

text \<open>
  \<open>CryptoJS.HmacSHA256(message, key)\<close> takes the key as a string or as a WordArray (the
  raw output of an earlier call) and returns a WordArray; it throws when a string cannot
  be converted to UTF-8. \<open>createSigningKey\<close> is modelled for any such function, which it
  takes as its first argument.
\<close>

datatype 'w hmac_key = KeyString jsstring | KeyWordArray 'w

definition createSigningKey :: "(jsstring \<Rightarrow> 'w hmac_key \<Rightarrow> jsthrown + 'w)
    \<Rightarrow> jsstring \<Rightarrow> jsstring \<Rightarrow> jsstring \<Rightarrow> jsstring \<Rightarrow> jsthrown + 'w" where
  "createSigningKey HmacSHA256 secretKey dateStamp region service =
     (case HmacSHA256 dateStamp (KeyString (js ''AWS4'' @ secretKey)) of
        Inl e \<Rightarrow> Inl e
      | Inr kDate \<Rightarrow>
     (case HmacSHA256 region (KeyWordArray kDate) of
        Inl e \<Rightarrow> Inl e
      | Inr kRegion \<Rightarrow>
     (case HmacSHA256 service (KeyWordArray kRegion) of
        Inl e \<Rightarrow> Inl e
      | Inr kService \<Rightarrow>
     (case HmacSHA256 (js ''aws4_request'') (KeyWordArray kService) of
        Inl e \<Rightarrow> Inl e
      | Inr kSigning \<Rightarrow> Inr kSigning))))"

text \<open>
  The signature of \<open>createPresignedUrl\<close> and \<open>createSignedHeaders\<close>:
  \<open>CryptoJS.HmacSHA256(stringToSign, signingKey).toString()\<close>.
\<close>

definition calculate_signature :: "(jsstring \<Rightarrow> 'w hmac_key \<Rightarrow> jsthrown + 'w) \<Rightarrow> ('w \<Rightarrow> jsstring)
    \<Rightarrow> jsstring \<Rightarrow> 'w \<Rightarrow> jsthrown + jsstring" where
  "calculate_signature HmacSHA256 toString stringToSign signingKey =
     (case HmacSHA256 stringToSign (KeyWordArray signingKey) of
        Inl e \<Rightarrow> Inl e
      | Inr sig \<Rightarrow> Inr (toString sig))"

text \<open>
  The chain as the specification words it: starting from a key, each datum is hashed under
  the current key and the raw output becomes the key of the next stage.
\<close>

fun keyed_hash_chain :: "(jsstring \<Rightarrow> 'w hmac_key \<Rightarrow> jsthrown + 'w) \<Rightarrow> 'w hmac_key
    \<Rightarrow> jsstring list \<Rightarrow> jsthrown + 'w hmac_key" where
  "keyed_hash_chain H k [] = Inr k"
| "keyed_hash_chain H k (d # ds) =
     (case H d k of Inl e \<Rightarrow> Inl e | Inr out \<Rightarrow> keyed_hash_chain H (KeyWordArray out) ds)"

subsection \<open>HMAC-SHA256\<close>

text \<open>
  Modelled from the spec: HMAC-SHA256 of the crypto-js package, which the source imports
  and which is not among the source files. The model follows FIPS 180-4 (SHA-256) and
  RFC 2104 (HMAC). A 32-bit word is the list of its 32 bits, least significant first, and
  an octet the list of its 8 bits; addition drops the carry out of the last bit, which is
  addition modulo \<open>2 ^ 32\<close>.
\<close>

type_synonym w32 = "bool list"
type_synonym octet = "bool list"

fun bits_of :: "nat \<Rightarrow> int \<Rightarrow> bool list" where
  "bits_of 0 x = []"
| "bits_of (Suc n) x = (x mod 2 = 1) # bits_of n (x div 2)"

fun bxor :: "bool \<Rightarrow> bool \<Rightarrow> bool" where
  "bxor True True = False"
| "bxor True False = True"
| "bxor False True = True"
| "bxor False False = False"

fun band :: "bool \<Rightarrow> bool \<Rightarrow> bool" where
  "band True True = True"
| "band True False = False"
| "band False True = False"
| "band False False = False"

fun full_sum :: "bool \<Rightarrow> bool \<Rightarrow> bool \<Rightarrow> bool" where
  "full_sum False False False = False"
| "full_sum False False True = True"
| "full_sum False True False = True"
| "full_sum False True True = False"
| "full_sum True False False = True"
| "full_sum True False True = False"
| "full_sum True True False = False"
| "full_sum True True True = True"

fun full_carry :: "bool \<Rightarrow> bool \<Rightarrow> bool \<Rightarrow> bool" where
  "full_carry False False False = False"
| "full_carry False False True = False"
| "full_carry False True False = False"
| "full_carry False True True = True"
| "full_carry True False False = False"
| "full_carry True False True = True"
| "full_carry True True False = True"
| "full_carry True True True = True"

fun xor32 :: "w32 \<Rightarrow> w32 \<Rightarrow> w32" where
  "xor32 (a # as) (b # bs) = bxor a b # xor32 as bs"
| "xor32 as bs = []"

fun and32 :: "w32 \<Rightarrow> w32 \<Rightarrow> w32" where
  "and32 (a # as) (b # bs) = band a b # and32 as bs"
| "and32 as bs = []"

fun not32 :: "w32 \<Rightarrow> w32" where
  "not32 [] = []"
| "not32 (True # as) = False # not32 as"
| "not32 (False # as) = True # not32 as"

fun add_carry :: "bool \<Rightarrow> w32 \<Rightarrow> w32 \<Rightarrow> w32" where
  "add_carry c (a # as) (b # bs) = full_sum a b c # add_carry (full_carry a b c) as bs"
| "add_carry c as bs = []"

definition add32 :: "w32 \<Rightarrow> w32 \<Rightarrow> w32" where
  "add32 x y = add_carry False x y"

definition rotr :: "nat \<Rightarrow> w32 \<Rightarrow> w32" where
  "rotr n x = drop n x @ take n x"

definition shr :: "nat \<Rightarrow> w32 \<Rightarrow> w32" where
  "shr n x = drop n x @ replicate n False"

definition Ch :: "w32 \<Rightarrow> w32 \<Rightarrow> w32 \<Rightarrow> w32" where
  "Ch x y z = xor32 (and32 x y) (and32 (not32 x) z)"

definition Maj :: "w32 \<Rightarrow> w32 \<Rightarrow> w32 \<Rightarrow> w32" where
  "Maj x y z = xor32 (xor32 (and32 x y) (and32 x z)) (and32 y z)"

definition Sigma0 :: "w32 \<Rightarrow> w32" where
  "Sigma0 x = xor32 (xor32 (rotr 2 x) (rotr 13 x)) (rotr 22 x)"

definition Sigma1 :: "w32 \<Rightarrow> w32" where
  "Sigma1 x = xor32 (xor32 (rotr 6 x) (rotr 11 x)) (rotr 25 x)"

definition sigma0 :: "w32 \<Rightarrow> w32" where
  "sigma0 x = xor32 (xor32 (rotr 7 x) (rotr 18 x)) (shr 3 x)"

definition sigma1 :: "w32 \<Rightarrow> w32" where
  "sigma1 x = xor32 (xor32 (rotr 17 x) (rotr 19 x)) (shr 10 x)"

definition K256 :: "int list" where
  "K256 =
    [0x428A2F98, 0x71374491, 0xB5C0FBCF, 0xE9B5DBA5, 0x3956C25B, 0x59F111F1, 0x923F82A4, 0xAB1C5ED5,
     0xD807AA98, 0x12835B01, 0x243185BE, 0x550C7DC3, 0x72BE5D74, 0x80DEB1FE, 0x9BDC06A7, 0xC19BF174,
     0xE49B69C1, 0xEFBE4786, 0x0FC19DC6, 0x240CA1CC, 0x2DE92C6F, 0x4A7484AA, 0x5CB0A9DC, 0x76F988DA,
     0x983E5152, 0xA831C66D, 0xB00327C8, 0xBF597FC7, 0xC6E00BF3, 0xD5A79147, 0x06CA6351, 0x14292967,
     0x27B70A85, 0x2E1B2138, 0x4D2C6DFC, 0x53380D13, 0x650A7354, 0x766A0ABB, 0x81C2C92E, 0x92722C85,
     0xA2BFE8A1, 0xA81A664B, 0xC24B8B70, 0xC76C51A3, 0xD192E819, 0xD6990624, 0xF40E3585, 0x106AA070,
     0x19A4C116, 0x1E376C08, 0x2748774C, 0x34B0BCB5, 0x391C0CB3, 0x4ED8AA4A, 0x5B9CCA4F, 0x682E6FF3,
     0x748F82EE, 0x78A5636F, 0x84C87814, 0x8CC70208, 0x90BEFFFA, 0xA4506CEB, 0xBEF9A3F7, 0xC67178F2]"

definition H256 :: "int list" where
  "H256 = [0x6A09E667, 0xBB67AE85, 0x3C6EF372, 0xA54FF53A, 0x510E527F, 0x9B05688C, 0x1F83D9AB,
           0x5BE0CD19]"

text \<open>
  The 64 rounds of the compression function, one for each constant. The third argument is
  a window of the message schedule, the words \<open>W\<^sub>t\<close> to \<open>W\<^sub>t\<^sub>+\<^sub>1\<^sub>5\<close> in round \<open>t\<close>: the round
  uses \<open>W\<^sub>t\<close> and extends the window by
  \<open>W\<^sub>t\<^sub>+\<^sub>1\<^sub>6 = \<sigma>\<^sub>1(W\<^sub>t\<^sub>+\<^sub>1\<^sub>4) + W\<^sub>t\<^sub>+\<^sub>9 + \<sigma>\<^sub>0(W\<^sub>t\<^sub>+\<^sub>1) + W\<^sub>t\<close>.
\<close>

fun rounds :: "w32 list \<Rightarrow> int list \<Rightarrow> w32 list \<Rightarrow> w32 list" where
  "rounds [a, b, c, d, e, f, g, h] (k # ks)
     (w0 # w1 # w2 # w3 # w4 # w5 # w6 # w7 # w8 # w9 # w10 # w11 # w12 # w13 # w14 # w15 # r) =
     (let t1 = add32 (add32 (add32 (add32 h (Sigma1 e)) (Ch e f g)) (bits_of 32 k)) w0;
          t2 = add32 (Sigma0 a) (Maj a b c)
      in rounds [add32 t1 t2, a, b, c, add32 d t1, e, f, g] ks
           [w1, w2, w3, w4, w5, w6, w7, w8, w9, w10, w11, w12, w13, w14, w15,
            add32 (add32 (sigma1 w14) w9) (add32 (sigma0 w1) w0)])"
| "rounds st ks ws = st"

definition compress :: "w32 list \<Rightarrow> w32 list \<Rightarrow> w32 list" where
  "compress h block = map2 add32 h (rounds h K256 block)"

text \<open>Octets and words, big-endian.\<close>

fun words_of_octets :: "octet list \<Rightarrow> w32 list" where
  "words_of_octets (b0 # b1 # b2 # b3 # bs) = (b3 @ b2 @ b1 @ b0) # words_of_octets bs"
| "words_of_octets bs = []"

definition octets_of_word :: "w32 \<Rightarrow> octet list" where
  "octets_of_word w = [drop 24 w, take 8 (drop 16 w), take 8 (drop 8 w), take 8 w]"

definition sha_pad :: "octet list \<Rightarrow> octet list" where
  "sha_pad m =
     m @ [bits_of 8 0x80] @ replicate ((119 - length m mod 64) mod 64) (bits_of 8 0)
       @ concat (map octets_of_word [bits_of 32 0, bits_of 32 (8 * int (length m))])"

function sha_blocks :: "w32 list \<Rightarrow> w32 list \<Rightarrow> w32 list" where
  "sha_blocks h ws =
     (if length ws < 16 then h else sha_blocks (compress h (take 16 ws)) (drop 16 ws))"
  by pat_completeness auto
termination
  by (relation "measure (\<lambda>(h, ws). length ws)") auto

declare sha_blocks.simps [simp del]

definition sha256 :: "octet list \<Rightarrow> octet list" where
  "sha256 m =
     concat (map octets_of_word
       (sha_blocks (map (bits_of 32) H256) (words_of_octets (sha_pad m))))"

definition hmac_sha256 :: "octet list \<Rightarrow> octet list \<Rightarrow> octet list" where
  "hmac_sha256 key msg =
     (let k0 = (if 64 < length key then sha256 key else key);
          k = k0 @ replicate (64 - length k0) (bits_of 8 0)
      in sha256 (map (xor32 (bits_of 8 0x5c)) k
           @ sha256 (map (xor32 (bits_of 8 0x36)) k @ msg)))"

text \<open>
  Modelled from the spec: the conversion of a string to the octets of its UTF-8 encoding,
  as crypto-js does it before hashing. It goes through \<open>encodeURIComponent\<close> there and
  so throws a \<open>URIError\<close> on an unpaired surrogate.
\<close>

fun Utf8_parse :: "jsstring \<Rightarrow> jsthrown + octet list" where
  "Utf8_parse [] = Inr []"
| "Utf8_parse (c # cs) =
     (if is_lead_surrogate c then
        (case cs of
           [] \<Rightarrow> Inl URIError
         | d # ds \<Rightarrow>
             if is_trail_surrogate d then
               (case Utf8_parse ds of
                  Inl e \<Rightarrow> Inl e
                | Inr r \<Rightarrow>
                    Inr (map (\<lambda>b. bits_of 8 (int b)) (utf8_encode (surrogate_pair_value c d)) @ r))
             else Inl URIError)
      else if is_trail_surrogate c then Inl URIError
      else
        (case Utf8_parse cs of
           Inl e \<Rightarrow> Inl e
         | Inr r \<Rightarrow> Inr (map (\<lambda>b. bits_of 8 (int b)) (utf8_encode (unat c)) @ r)))"

text \<open>
  Modelled from the spec: \<open>CryptoJS.HmacSHA256(message, key)\<close> for a string message and a
  key that is a string or a WordArray, the latter as the list of its octets.
\<close>

definition HmacSHA256 :: "jsstring \<Rightarrow> octet list hmac_key \<Rightarrow> jsthrown + octet list" where
  "HmacSHA256 msg key =
     (case (case key of KeyString s \<Rightarrow> Utf8_parse s | KeyWordArray w \<Rightarrow> Inr w) of
        Inl e \<Rightarrow> Inl e
      | Inr k \<Rightarrow> (case Utf8_parse msg of Inl e \<Rightarrow> Inl e | Inr m \<Rightarrow> Inr (hmac_sha256 k m)))"

text \<open>
  Modelled from the spec: \<open>toString()\<close> of a WordArray, two lower-case hexadecimal digits
  for every octet.
\<close>

fun hex_digit_lower :: "bool list \<Rightarrow> char" where
  "hex_digit_lower [b0, b1, b2, b3] =
     (if b3 then
        (if b2 then (if b1 then (if b0 then CHR ''f'' else CHR ''e'')
                     else (if b0 then CHR ''d'' else CHR ''c''))
         else (if b1 then (if b0 then CHR ''b'' else CHR ''a'')
               else (if b0 then CHR ''9'' else CHR ''8'')))
      else
        (if b2 then (if b1 then (if b0 then CHR ''7'' else CHR ''6'')
                     else (if b0 then CHR ''5'' else CHR ''4''))
         else (if b1 then (if b0 then CHR ''3'' else CHR ''2'')
               else (if b0 then CHR ''1'' else CHR ''0''))))"
| "hex_digit_lower bs = CHR ''?''"

definition WordArray_toString :: "octet list \<Rightarrow> jsstring" where
  "WordArray_toString ws =
     js (concat (map (\<lambda>b. [hex_digit_lower (drop 4 b), hex_digit_lower (take 4 b)]) ws))"

subsection \<open>Reference values\<close>

text \<open>
  The published example of the signing protocol: the example secret key, the date
  20150830, the region us-east-1, the service iam, and the string to sign of the example
  request. Octets are written from ASCII text and from hexadecimal digits.
\<close>

definition ascii_octets :: "string \<Rightarrow> octet list" where
  "ascii_octets s = map (\<lambda>c. bits_of 8 (of_char c)) s"

fun hex_nibble :: "char \<Rightarrow> bool list" where
  "hex_nibble c =
     take 4 (bits_of 8 (if of_char c < (0x3A :: int) then of_char c - 0x30 else of_char c - 0x57))"

fun octets_of_hex :: "string \<Rightarrow> octet list" where
  "octets_of_hex (h # l # r) = (hex_nibble l @ hex_nibble h) # octets_of_hex r"
| "octets_of_hex r = []"

definition reference_secret :: string where
  "reference_secret = ''wJalrXUtnFEMI/K7MDENG+bPxRfiCYEXAMPLEKEY''"

definition reference_string_to_sign :: "string list" where
  "reference_string_to_sign =
     [''AWS4-HMAC-SHA256'', ''20150830T123600Z'', ''20150830/us-east-1/iam/aws4_request'',
      ''f536975d06c0309214f805bb90ccff089219ecd68b2577efef23edd43b7e1a59'']"

section \<open>The download strategies and downloadFromS3\<close>

record config =
  accessKey :: jsstring
  secretKey :: jsstring
  region :: jsstring

record download_result =
  buffer :: "8 word list"
  contentType :: jsstring
  size :: nat
  presignedUrl :: jsstring

text \<open>
  The surroundings of one call. \<open>createPresignedUrl\<close> and \<open>createSignedHeaders\<close> read the
  clock and call the hashing library; the download functions use nothing of them but the
  value they return or the error they throw, so both enter as functions of their arguments.
\<close>

record environment =
  network_of :: network
  createPresignedUrl :: "config \<Rightarrow> jsstring \<Rightarrow> jsstring \<Rightarrow> nat \<Rightarrow> jsthrown + jsstring"
  createSignedHeaders :: "config \<Rightarrow> jsstring \<Rightarrow> jsstring \<Rightarrow> jsthrown + (jsstring \<times> jsstring) list"

text \<open>
  \<open>if (onProgress) onProgress(percent, message, url)\<close>. The flag says whether the caller
  passed a callback; the callback records the event and returns.
\<close>

definition report :: "bool \<Rightarrow> nat \<Rightarrow> jsstring \<Rightarrow> jsstring option \<Rightarrow> event list \<Rightarrow> event list" where
  "report onProgress percent msg url tr =
     (if onProgress then tr @ [Progress percent msg url] else tr)"

text \<open>
  What both strategies do with the outcome of \<open>fetchWithRetry\<close>: throw on a response that
  is not ok, then read the body and build the result. \<open>label\<close> is the strategy's prefix of
  the error message.
\<close>

definition finish_download :: "bool \<Rightarrow> string \<Rightarrow> jsstring
    \<Rightarrow> (jsthrown + response) \<times> event list \<Rightarrow> (jsthrown + download_result) \<times> event list" where
  "finish_download onProgress label url fetched =
     (case fetched of
        (Inl e, tr1) \<Rightarrow> (Inl e, tr1)
      | (Inr resp, tr1) \<Rightarrow>
          if \<not> ok resp then
            (Inl (JSError (js label @ digits10 (status resp) @ js '' '' @ statusText resp)), tr1)
          else
            let tr2 = report onProgress 80 (js ''Processing downloaded data...'') (Some url) tr1
            in (case arrayBuffer resp of
                  Inl e \<Rightarrow> (Inl e, tr2)
                | Inr bytes \<Rightarrow>
                    (Inr \<lparr>buffer = bytes,
                          contentType = (case contentTypeHeader resp of
                                           None \<Rightarrow> js ''application/pdf''
                                         | Some t \<Rightarrow> if t = [] then js ''application/pdf'' else t),
                          size = length bytes,
                          presignedUrl = url\<rparr>,
                     report onProgress 100 (js ''Download completed'') (Some url) tr2)))"

definition downloadWithPresignedUrl :: "environment \<Rightarrow> config \<Rightarrow> jsstring \<Rightarrow> jsstring \<Rightarrow> bool
    \<Rightarrow> event list \<Rightarrow> (jsthrown + download_result) \<times> event list" where
  "downloadWithPresignedUrl env cfg bucketName fileName onProgress tr =
     (let tr1 = report onProgress 20 (js ''Creating pre-signed URL...'') None tr
      in case createPresignedUrl env cfg bucketName fileName 3600 of
           Inl e \<Rightarrow> (Inl e, tr1)
         | Inr signedUrl \<Rightarrow>
             let tr2 = report onProgress 40 (js ''Downloading via pre-signed URL...'')
                         (Some signedUrl) tr1
             in finish_download onProgress ''Pre-signed URL download failed: '' signedUrl
                  (fetchWithRetry (network_of env) signedUrl
                     \<lparr>opt_method = js ''GET'', opt_mode = js ''cors'',
                      opt_headers = [(js ''Accept'', js ''application/pdf,*/*'')]\<rparr> 3 tr2))"

definition downloadWithDirectSigning :: "environment \<Rightarrow> config \<Rightarrow> jsstring \<Rightarrow> jsstring \<Rightarrow> bool
    \<Rightarrow> event list \<Rightarrow> (jsthrown + download_result) \<times> event list" where
  "downloadWithDirectSigning env cfg bucketName fileName onProgress tr =
     (let tr1 = report onProgress 20 (js ''Creating direct signed request...'') None tr
      in case encodeS3Key fileName of
           Inl e \<Rightarrow> (Inl e, tr1)
         | Inr encodedFileName \<Rightarrow>
             let url = js ''https://'' @ bucketName @ js ''.s3.'' @ region cfg
                         @ js ''.amazonaws.com/'' @ encodedFileName
             in (case createSignedHeaders env cfg bucketName fileName of
                   Inl e \<Rightarrow> (Inl e, tr1)
                 | Inr signedHeaders \<Rightarrow>
                     let tr2 = report onProgress 40 (js ''Downloading with signed headers...'')
                                 (Some url) tr1
                     in finish_download onProgress ''Direct signed download failed: '' url
                          (fetchWithRetry (network_of env) url
                             \<lparr>opt_method = js ''GET'', opt_mode = js ''cors'',
                              opt_headers = signedHeaders
                                @ [(js ''Accept'', js ''application/pdf,*/*'')]\<rparr> 3 tr2)))"

text \<open>
  The test of the catch block of \<open>downloadFromS3\<close>:
  \<open>error.message.includes('403') || error.message.includes('Access denied')\<close>.
\<close>

definition credential_issue :: "jsstring \<Rightarrow> bool" where
  "credential_issue msg = (str_includes msg (js ''403'') \<or> str_includes msg (js ''Access denied''))"

text \<open>
  Reading \<open>error.message\<close> of \<open>undefined\<close> throws a \<open>TypeError\<close> of the runtime; its
  message is the one V8 gives.
\<close>

definition undefined_message :: jsstring where
  "undefined_message =
     js ''Cannot read properties of undefined (reading '' @ [0x27] @ js ''message'' @ [0x27]
       @ js '')''"

type_synonym strategy = "event list \<Rightarrow> (jsthrown + download_result) \<times> event list"

text \<open>
  The loop over \<open>strategies\<close>, from index \<open>i\<close> with the strategies still to try. A result
  returns at once. A caught error becomes \<open>lastError\<close>; it is thrown again when its
  message tells a credential issue, and otherwise the loop goes on. After the loop,
  \<open>throw lastError || new Error('All download methods failed')\<close>.
\<close>

fun try_strategies :: "bool \<Rightarrow> nat \<Rightarrow> (jsstring \<times> strategy) list \<Rightarrow> jsthrown option
    \<Rightarrow> event list \<Rightarrow> (jsthrown + download_result) \<times> event list" where
  "try_strategies onProgress i [] lastError tr =
     (case lastError of
        Some (JSError m) \<Rightarrow> (Inl (JSError m), tr)
      | _ \<Rightarrow> (Inl (JSError (js ''All download methods failed'')), tr))"
| "try_strategies onProgress i ((name, fn) # rest) lastError tr =
     (case fn (report onProgress (10 + i * 10) (js ''Trying '' @ name @ js '' method...'') None tr) of
        (Inr result, tr1) \<Rightarrow> (Inr result, tr1)
      | (Inl Undefined, tr1) \<Rightarrow> (Inl (JSError undefined_message), tr1)
      | (Inl (JSError m), tr1) \<Rightarrow>
          if credential_issue m then (Inl (JSError m), tr1)
          else try_strategies onProgress (i + 1) rest (Some (JSError m)) tr1)"

definition downloadFromS3 :: "environment \<Rightarrow> config \<Rightarrow> jsstring \<Rightarrow> jsstring \<Rightarrow> bool
    \<Rightarrow> event list \<Rightarrow> (jsthrown + download_result) \<times> event list" where
  "downloadFromS3 env cfg bucketName fileName onProgress tr =
     try_strategies onProgress 0
       [(js ''presigned'', downloadWithPresignedUrl env cfg bucketName fileName onProgress),
        (js ''direct'', downloadWithDirectSigning env cfg bucketName fileName onProgress)]
       None
       (report onProgress 5 (js ''Initializing download...'') None tr)"

text \<open>
  The trace at the moment the first strategy starts and, after it failed with trace \<open>tr1\<close>,
  at the moment the second starts; and the outcomes of a strategy after which the loop
  goes on to the next one.
\<close>

definition presigned_start :: "bool \<Rightarrow> event list \<Rightarrow> event list" where
  "presigned_start onProgress tr =
     report onProgress 10 (js ''Trying '' @ js ''presigned'' @ js '' method...'') None
       (report onProgress 5 (js ''Initializing download...'') None tr)"

definition direct_start :: "bool \<Rightarrow> event list \<Rightarrow> event list" where
  "direct_start onProgress tr1 =
     report onProgress 20 (js ''Trying '' @ js ''direct'' @ js '' method...'') None tr1"

definition falls_back :: "jsthrown + download_result \<Rightarrow> bool" where
  "falls_back r = (case r of Inl (JSError m) \<Rightarrow> \<not> credential_issue m | _ \<Rightarrow> False)"

section \<open>testS3Connection\<close>

record diagnostic =
  success :: bool
  diag_message :: jsstring

text \<open>
  The body of an inner \<open>catch\<close>: \<open>console.warn(..., error.message)\<close>. Reading the
  message of \<open>undefined\<close> throws a \<open>TypeError\<close> out of the \<open>catch\<close>, to the outer one;
  \<open>Some m\<close> is the message of that error.
\<close>

definition warn_message :: "jsthrown \<Rightarrow> jsstring option" where
  "warn_message e = (case e of Undefined \<Rightarrow> Some undefined_message | JSError m \<Rightarrow> None)"

definition head_options :: fetch_options where
  "head_options = \<lparr>opt_method = js ''HEAD'', opt_mode = js ''cors'', opt_headers = []\<rparr>"

text \<open>
  The first probe: a HEAD request of a pre-signed URL of the name \<open>__connection_test__\<close>.
  \<open>Inr (Some d)\<close> is the \<open>return\<close> inside the \<open>try\<close>, \<open>Inr None\<close> falls through to the next
  probe, \<open>Inl m\<close> is the throw of a \<open>TypeError\<close> with message \<open>m\<close> out of the \<open>catch\<close>.
\<close>

definition presigned_probe :: "environment \<Rightarrow> config \<Rightarrow> jsstring \<Rightarrow> event list
    \<Rightarrow> (jsstring + diagnostic option) \<times> event list" where
  "presigned_probe env cfg bucketName tr =
     (case createPresignedUrl env cfg bucketName (js ''__connection_test__'') 60 of
        Inl e \<Rightarrow> (case warn_message e of Some t \<Rightarrow> (Inl t, tr) | None \<Rightarrow> (Inr None, tr))
      | Inr testUrl \<Rightarrow>
          (case fetch (network_of env) testUrl head_options tr of
             (Inl e, tr1) \<Rightarrow>
               (case warn_message e of Some t \<Rightarrow> (Inl t, tr1) | None \<Rightarrow> (Inr None, tr1))
           | (Inr resp, tr1) \<Rightarrow>
               if status resp = 200 \<or> status resp = 404 then
                 (Inr (Some \<lparr>success = True,
                             diag_message = js ''AWS credentials valid (pre-signed URL)''\<rparr>), tr1)
               else (Inr None, tr1)))"

definition direct_probe :: "environment \<Rightarrow> config \<Rightarrow> jsstring \<Rightarrow> event list
    \<Rightarrow> (jsstring + diagnostic option) \<times> event list" where
  "direct_probe env cfg bucketName tr =
     (case fetch (network_of env)
             (js ''https://'' @ bucketName @ js ''.s3.'' @ region cfg @ js ''.amazonaws.com/'')
             head_options tr of
        (Inl e, tr1) \<Rightarrow>
          (case warn_message e of Some t \<Rightarrow> (Inl t, tr1) | None \<Rightarrow> (Inr None, tr1))
      | (Inr resp, tr1) \<Rightarrow>
          if status resp = 200 \<or> status resp = 403 then
            (Inr (Some \<lparr>success = True,
                        diag_message = js ''AWS setup valid (direct access)''\<rparr>), tr1)
          else (Inr None, tr1))"

text \<open>
  The outer \<open>catch\<close> builds the failed diagnostic from the message of the error. The errors
  that reach it are error objects: the \<open>TypeError\<close> of an inner \<open>catch\<close> and the final
  \<open>new Error('All connection test methods failed')\<close>.
\<close>

definition connection_failed :: "jsstring \<Rightarrow> diagnostic" where
  "connection_failed m = \<lparr>success = False, diag_message = js ''Connection test failed: '' @ m\<rparr>"

definition testS3Connection :: "environment \<Rightarrow> config \<Rightarrow> jsstring \<Rightarrow> event list
    \<Rightarrow> diagnostic \<times> event list" where
  "testS3Connection env cfg bucketName tr =
     (case presigned_probe env cfg bucketName tr of
        (Inl e, tr1) \<Rightarrow> (connection_failed e, tr1)
      | (Inr (Some d), tr1) \<Rightarrow> (d, tr1)
      | (Inr None, tr1) \<Rightarrow>
          (case direct_probe env cfg bucketName tr1 of
             (Inl e, tr2) \<Rightarrow> (connection_failed e, tr2)
           | (Inr (Some d), tr2) \<Rightarrow> (d, tr2)
           | (Inr None, tr2) \<Rightarrow>
               (connection_failed (js ''All connection test methods failed''), tr2)))"

section \<open>Example inputs\<close>

text \<open>A network on which every request is rejected, a response with an error status, and a
  network that rejects the first request and answers the later ones with that response.\<close>

definition failing_network :: network where
  "failing_network k url opts = Inl (JSError (js ''Failed to fetch''))"

definition server_error :: response where
  "server_error = \<lparr>status = 500, statusText = js ''Internal Server Error'',
     contentTypeHeader = None, arrayBuffer = Inr []\<rparr>"


text \<open>
  A configuration, surroundings whose signing functions return fixed values, three
  responses, and networks that answer every request alike or the first \<open>n\<close> requests in
  one way and the later ones with a response.
\<close>

definition example_config :: config where
  "example_config = \<lparr>accessKey = js ''AKIDEXAMPLE'', secretKey = js ''secret'', region = js ''us-east-1''\<rparr>"

definition example_env :: "network \<Rightarrow> environment" where
  "example_env net =
     \<lparr>network_of = net,
      createPresignedUrl = (\<lambda>cfg bucketName fileName ttl. Inr (js ''https://signed'')),
      createSignedHeaders = (\<lambda>cfg bucketName fileName. Inr [(js ''Authorization'', js ''sig'')])\<rparr>"

definition forbidden :: response where
  "forbidden = \<lparr>status = 403, statusText = js ''Forbidden'', contentTypeHeader = None, arrayBuffer = Inr []\<rparr>"

definition not_found :: response where
  "not_found = \<lparr>status = 404, statusText = js ''Not Found'', contentTypeHeader = None, arrayBuffer = Inr []\<rparr>"

definition pdf_response :: response where
  "pdf_response = \<lparr>status = 200, statusText = js ''OK'', contentTypeHeader = Some (js ''application/pdf''),
     arrayBuffer = Inr [0x25, 0x50, 0x44, 0x46]\<rparr>"

definition always :: "response \<Rightarrow> network" where
  "always r k url opts = Inr r"

definition first_then :: "nat \<Rightarrow> jsthrown + response \<Rightarrow> response \<Rightarrow> network" where
  "first_then n x r k url opts = (if k < n then x else Inr r)"


text \<open>A download of the key \<open>a b.pdf\<close> from the bucket \<open>docs\<close>, and its two strategies.\<close>

definition example_download :: "bool \<Rightarrow> network \<Rightarrow> (jsthrown + download_result) \<times> event list" where
  "example_download cb net =
     downloadFromS3 (example_env net) example_config (js ''docs'') (js ''a b.pdf'') cb []"

definition example_presigned :: "bool \<Rightarrow> network \<Rightarrow> (jsthrown + download_result) \<times> event list" where
  "example_presigned cb net =
     downloadWithPresignedUrl (example_env net) example_config (js ''docs'') (js ''a b.pdf'') cb
       (presigned_start cb [])"

definition example_direct :: "bool \<Rightarrow> network \<Rightarrow> (jsthrown + download_result) \<times> event list" where
  "example_direct cb net =
     downloadWithDirectSigning (example_env net) example_config (js ''docs'') (js ''a b.pdf'') cb
       (direct_start cb (snd (example_presigned cb net)))"

definition example_result :: download_result where
  "example_result =
     \<lparr>buffer = [0x25, 0x50, 0x44, 0x46], contentType = js ''application/pdf'', size = 4,
      presignedUrl = js ''https://docs.s3.us-east-1.amazonaws.com/a%20b.pdf''\<rparr>"

section \<open>Properties of fetchWithRetry\<close>

lemma fetches_snoc_fetch: "fetches (tr @ [FetchCall u opts]) = Suc (fetches tr)"
  by (simp add: fetches_def)

lemma fetches_snoc_sleep: "fetches (tr @ [Sleep ms]) = fetches tr"
  by (simp add: fetches_def)

lemma fetches_append: "fetches (tr @ tr') = fetches tr + fetches tr'"
  by (simp add: fetches_def)







text \<open>
  Claim C10. Called with \<open>maxRetries \<le> 0\<close>, \<open>fetchWithRetry\<close> never enters the loop: it makes
  no request (the trace is unchanged) and throws the value of the never-assigned
  \<open>lastError\<close>, which is \<open>undefined\<close> and not an error object.
\<close>

theorem fetchWithRetry_no_attempts:
  "maxRetries \<le> 0 \<Longrightarrow> fetchWithRetry net url opts maxRetries tr = (Inl Undefined, tr)"
  unfolding fetchWithRetry_def by (subst fetchWithRetry_loop.simps) simp




theorem fetchWithRetry_no_attempts_witness:
  "(0::int) \<le> 0 \<and> fetchWithRetry failing_network (js ''u'') head_options 0 [] = (Inl Undefined, [])"
  using fetchWithRetry_no_attempts[of 0 failing_network "js ''u''" head_options "[]"] by simp

section \<open>Properties of downloadFromS3 and testS3Connection\<close>

lemma downloadFromS3_presigned:
  "downloadFromS3 env cfg b f cb tr =
     try_strategies cb 0
       [(js ''presigned'', downloadWithPresignedUrl env cfg b f cb),
        (js ''direct'', downloadWithDirectSigning env cfg b f cb)] None
       (report cb 5 (js ''Initializing download...'') None tr)"
  by (simp add: downloadFromS3_def)

lemma try_presigned_result:
  "downloadWithPresignedUrl env cfg b f cb (presigned_start cb tr) = (Inr r, tr1)
    \<Longrightarrow> downloadFromS3 env cfg b f cb tr = (Inr r, tr1)"
  by (simp add: downloadFromS3_def presigned_start_def)

lemma try_presigned_credential:
  "downloadWithPresignedUrl env cfg b f cb (presigned_start cb tr) = (Inl (JSError m), tr1)
    \<Longrightarrow> credential_issue m
    \<Longrightarrow> try_strategies cb 0 ((js ''presigned'', downloadWithPresignedUrl env cfg b f cb) # rest) None
          (report cb 5 (js ''Initializing download...'') None tr) = (Inl (JSError m), tr1)"
  by (simp add: presigned_start_def)

lemma try_presigned_fallback:
  "downloadWithPresignedUrl env cfg b f cb (presigned_start cb tr) = (Inl (JSError m), tr1)
    \<Longrightarrow> \<not> credential_issue m
    \<Longrightarrow> downloadFromS3 env cfg b f cb tr =
        (case downloadWithDirectSigning env cfg b f cb (direct_start cb tr1) of
           (Inr result, tr2) \<Rightarrow> (Inr result, tr2)
         | (Inl Undefined, tr2) \<Rightarrow> (Inl (JSError undefined_message), tr2)
         | (Inl (JSError m2), tr2) \<Rightarrow> (Inl (JSError m2), tr2))"
  by (simp add: downloadFromS3_def presigned_start_def direct_start_def
      split: prod.splits sum.splits jsthrown.splits)

lemma both_strategies_throw:
  assumes "downloadWithPresignedUrl env cfg b f cb (presigned_start cb tr) = (Inl (JSError m1), tr1)"
    and "\<not> credential_issue m1"
    and "downloadWithDirectSigning env cfg b f cb (direct_start cb tr1) = (Inl (JSError m2), tr2)"
  shows "downloadFromS3 env cfg b f cb tr = (Inl (JSError m2), tr2)"
  by (simp add: try_presigned_fallback[OF assms(1,2)] assms(3))

text \<open>
  Claim C2. When the Presigned strategy throws an error whose message contains \<open>403\<close> or
  \<open>Access denied\<close>, \<open>downloadFromS3\<close> throws that same error and ends with the trace the
  strategy left: nothing of a second strategy happens, whatever strategies follow in the
  list.
\<close>

theorem authorization_short_circuit:
  assumes "downloadWithPresignedUrl env cfg b f cb (presigned_start cb tr) = (Inl (JSError m), tr1)"
    and "credential_issue m"
  shows "downloadFromS3 env cfg b f cb tr = (Inl (JSError m), tr1)
       \<and> (\<forall>rest. try_strategies cb 0
              ((js ''presigned'', downloadWithPresignedUrl env cfg b f cb) # rest) None
              (report cb 5 (js ''Initializing download...'') None tr) = (Inl (JSError m), tr1))"
  using try_presigned_credential[OF assms] by (simp add: downloadFromS3_def)

text \<open>
  Claim C3. The Presigned strategy runs first, and its result is the result of the
  download. When it throws an error that is not a credential issue (a transport failure
  or a 404 response, for example), the HeaderSigned strategy runs next, from the trace the
  first one left, and when it succeeds the download returns its result.
\<close>

theorem fallback_to_direct_signing:
  "(\<forall>r tr1. downloadWithPresignedUrl env cfg b f cb (presigned_start cb tr) = (Inr r, tr1)
       \<longrightarrow> downloadFromS3 env cfg b f cb tr = (Inr r, tr1))
   \<and> (\<forall>m tr1. downloadWithPresignedUrl env cfg b f cb (presigned_start cb tr) = (Inl (JSError m), tr1)
       \<longrightarrow> \<not> credential_issue m
       \<longrightarrow> snd (downloadFromS3 env cfg b f cb tr)
             = snd (downloadWithDirectSigning env cfg b f cb (direct_start cb tr1))
           \<and> (\<forall>result tr2.
                 downloadWithDirectSigning env cfg b f cb (direct_start cb tr1) = (Inr result, tr2)
                 \<longrightarrow> downloadFromS3 env cfg b f cb tr = (Inr result, tr2)))"
proof (intro conjI allI impI)
  fix r tr1
  assume "downloadWithPresignedUrl env cfg b f cb (presigned_start cb tr) = (Inr r, tr1)"
  then show "downloadFromS3 env cfg b f cb tr = (Inr r, tr1)" by (rule try_presigned_result)
next
  fix m tr1
  assume p: "downloadWithPresignedUrl env cfg b f cb (presigned_start cb tr) = (Inl (JSError m), tr1)"
    and c: "\<not> credential_issue m"
  show "snd (downloadFromS3 env cfg b f cb tr)
      = snd (downloadWithDirectSigning env cfg b f cb (direct_start cb tr1))"
    by (simp add: try_presigned_fallback[OF p c] split: prod.splits sum.splits jsthrown.splits)
  fix result tr2
  assume "downloadWithDirectSigning env cfg b f cb (direct_start cb tr1) = (Inr result, tr2)"
  then show "downloadFromS3 env cfg b f cb tr = (Inr result, tr2)"
    by (simp add: try_presigned_fallback[OF p c])
qed

text \<open>
  Claim C8, as amended. When both strategies throw and the first error is not a credential
  issue, \<open>downloadFromS3\<close> throws the error of the HeaderSigned strategy itself, unchanged:
  no error wraps it and no count of tried methods is added. The generic error
  \<open>All download methods failed\<close> is what the loop throws when no error was recorded.
\<close>

theorem exhausted_throws_last_error:
  assumes "downloadWithPresignedUrl env cfg b f cb (presigned_start cb tr) = (Inl (JSError m1), tr1)"
    and "\<not> credential_issue m1"
    and "downloadWithDirectSigning env cfg b f cb (direct_start cb tr1) = (Inl (JSError m2), tr2)"
  shows "downloadFromS3 env cfg b f cb tr = (Inl (JSError m2), tr2)
       \<and> try_strategies cb i [] None tr' = (Inl (JSError (js ''All download methods failed'')), tr')"
  by (simp add: both_strategies_throw[OF assms])

lemma percentages_append: "percentages (tr @ tr') = percentages tr @ percentages tr'"
  by (induction tr rule: percentages.induct) simp_all

lemma percentages_report:
  "percentages (report cb p m u tr) = percentages tr @ (if cb then [p] else [])"
  by (simp add: report_def percentages_append)

lemma percentages_fetchWithRetry_loop:
  "percentages (snd (fetchWithRetry_loop net url opts m a lastErr tr)) = percentages tr"
proof (induction net url opts m a lastErr tr rule: fetchWithRetry_loop.induct)
  case (1 net url opts maxRetries attempt lastError tr)
  show ?case
  proof (cases "attempt \<le> maxRetries")
    case False
    then show ?thesis by (subst fetchWithRetry_loop.simps) simp
  next
    case True
    show ?thesis
    proof (cases "net (fetches tr) url opts")
      case (Inr r)
      then show ?thesis using True
        by (subst fetchWithRetry_loop.simps) (simp add: fetch_def percentages_append)
    next
      case (Inl e)
      have f: "fetch net url opts tr = (Inl e, tr @ [FetchCall url opts])"
        by (simp add: fetch_def Inl)
      show ?thesis
        using "1.IH"[OF True f[symmetric] refl] True Inl
        by (subst fetchWithRetry_loop.simps) (simp add: fetch_def percentages_append)
    qed
  qed
qed

lemma percentages_finish_download:
  "\<exists>k\<le>2. percentages (snd (finish_download cb label url (fetchWithRetry net u opts 3 tr)))
      = percentages tr @ (if cb then take k [80, 100] else [])"
proof -
  obtain r tr1 where r: "fetchWithRetry net u opts 3 tr = (r, tr1)" by (cases "fetchWithRetry net u opts 3 tr")
  have p: "percentages tr1 = percentages tr"
    using percentages_fetchWithRetry_loop[of net u opts 3 1 Undefined tr] r
    by (simp add: fetchWithRetry_def)
  show ?thesis
  proof (cases r)
    case (Inl e)
    then show ?thesis using r p by (intro exI[of _ 0]) (simp add: finish_download_def)
  next
    case (Inr resp)
    show ?thesis
    proof (cases "ok resp")
      case False
      then show ?thesis using r p Inr by (intro exI[of _ 0]) (simp add: finish_download_def)
    next
      case True
      show ?thesis
      proof (cases "arrayBuffer resp")
        case (Inl e)
        then show ?thesis using r p Inr True
          by (intro exI[of _ 1]) (simp add: finish_download_def percentages_report)
      next
        case (Inr bytes)
        then show ?thesis using r p \<open>r = Inr resp\<close> True
          by (intro exI[of _ 2]) (simp add: finish_download_def percentages_report)
      qed
    qed
  qed
qed

lemma percentages_presigned:
  "\<exists>k\<le>4. percentages (snd (downloadWithPresignedUrl env cfg b f cb tr))
      = percentages tr @ (if cb then take k [20, 40, 80, 100] else [])"
proof (cases "createPresignedUrl env cfg b f 3600")
  case (Inl e)
  then show ?thesis
    by (intro exI[of _ 1]) (simp add: downloadWithPresignedUrl_def percentages_report)
next
  case (Inr url)
  let ?tr2 = "report cb 40 (js ''Downloading via pre-signed URL...'') (Some url)
                (report cb 20 (js ''Creating pre-signed URL...'') None tr)"
  let ?opts = "\<lparr>opt_method = js ''GET'', opt_mode = js ''cors'',
                      opt_headers = [(js ''Accept'', js ''application/pdf,*/*'')]\<rparr>"
  obtain k where k: "k \<le> 2"
    "percentages (snd (finish_download cb ''Pre-signed URL download failed: '' url
        (fetchWithRetry (network_of env) url ?opts 3 ?tr2)))
      = percentages ?tr2 @ (if cb then take k [80, 100] else [])"
    using percentages_finish_download by blast
  have t: "take (2 + k) [20, 40, 80, 100::nat] = [20, 40] @ take k [80, 100]" by simp
  show ?thesis
    apply (intro exI[of _ "2 + k"])
    using k Inr by (simp add: downloadWithPresignedUrl_def percentages_report t del: take_Cons_numeral)
qed

lemma percentages_direct:
  "\<exists>k\<le>4. percentages (snd (downloadWithDirectSigning env cfg b f cb tr))
      = percentages tr @ (if cb then take k [20, 40, 80, 100] else [])"
proof (cases "encodeS3Key f")
  case (Inl e)
  then show ?thesis
    by (intro exI[of _ 1]) (simp add: downloadWithDirectSigning_def percentages_report)
next
  case (Inr enc)
  show ?thesis
  proof (cases "createSignedHeaders env cfg b f")
    case (Inl e)
    then show ?thesis using Inr
      by (intro exI[of _ 1]) (simp add: downloadWithDirectSigning_def percentages_report)
  next
    case hd: (Inr signedHeaders)
    let ?url = "js ''https://'' @ b @ js ''.s3.'' @ region cfg @ js ''.amazonaws.com/'' @ enc"
    let ?tr2 = "report cb 40 (js ''Downloading with signed headers...'') (Some ?url)
                  (report cb 20 (js ''Creating direct signed request...'') None tr)"
    let ?opts = "\<lparr>opt_method = js ''GET'', opt_mode = js ''cors'',
                        opt_headers = signedHeaders @ [(js ''Accept'', js ''application/pdf,*/*'')]\<rparr>"
    obtain k where k: "k \<le> 2"
      "percentages (snd (finish_download cb ''Direct signed download failed: '' ?url
          (fetchWithRetry (network_of env) ?url ?opts 3 ?tr2)))
        = percentages ?tr2 @ (if cb then take k [80, 100] else [])"
      using percentages_finish_download by blast
    have t: "take (2 + k) [20, 40, 80, 100::nat] = [20, 40] @ take k [80, 100]" by simp
    show ?thesis
      apply (intro exI[of _ "2 + k"])
      using k Inr hd
      by (simp add: downloadWithDirectSigning_def percentages_report t Let_def del: take_Cons_numeral)
  qed
qed


lemma no_fallback_trace:
  assumes "downloadWithPresignedUrl env cfg b f cb (presigned_start cb tr) = (r1, tr1)"
    and "\<not> falls_back r1"
  shows "snd (downloadFromS3 env cfg b f cb tr) = tr1"
  using assms
  by (simp add: downloadFromS3_def presigned_start_def falls_back_def
      split: sum.splits jsthrown.splits)

lemma fallback_trace:
  assumes "downloadWithPresignedUrl env cfg b f cb (presigned_start cb tr) = (r1, tr1)"
    and "falls_back r1"
  shows "snd (downloadFromS3 env cfg b f cb tr)
      = snd (downloadWithDirectSigning env cfg b f cb (direct_start cb tr1))"
proof -
  from assms(2) obtain m where m: "r1 = Inl (JSError m)" "\<not> credential_issue m"
    by (auto simp: falls_back_def split: sum.splits jsthrown.splits)
  show ?thesis
    using try_presigned_fallback[OF assms(1)[unfolded m(1)] m(2)]
    by (simp split: prod.splits sum.splits jsthrown.splits)
qed

text \<open>
  Claim C9, as amended. The percentages reported by one call are an initial part of
  5, 10, 20, 40, 80, 100, followed, when the call falls back to the HeaderSigned strategy,
  by an initial part of 20, 20, 40, 80, 100. Both parts are non-decreasing and every
  percentage is at most 100; without a fallback the second part is empty.
\<close>

theorem progress_percentages:
  "\<exists>n1 n2. percentages (snd (downloadFromS3 env cfg b f cb tr))
        = percentages tr @ take n1 [5, 10, 20, 40, 80, 100] @ take n2 [20, 20, 40, 80, 100]
      \<and> sorted (take n1 [5, 10, 20, 40, 80, 100::nat])
      \<and> sorted (take n2 [20, 20, 40, 80, 100::nat])
      \<and> list_all (\<lambda>p. p \<le> 100)
            (take n1 [5, 10, 20, 40, 80, 100::nat] @ take n2 [20, 20, 40, 80, 100])
      \<and> (\<not> falls_back (fst (downloadWithPresignedUrl env cfg b f cb (presigned_start cb tr)))
           \<longrightarrow> n2 = 0)"
proof -
  obtain r1 tr1 where r1: "downloadWithPresignedUrl env cfg b f cb (presigned_start cb tr) = (r1, tr1)"
    by (cases "downloadWithPresignedUrl env cfg b f cb (presigned_start cb tr)")
  obtain k1 where k1: "k1 \<le> 4" "percentages tr1
      = percentages (presigned_start cb tr) @ (if cb then take k1 [20, 40, 80, 100] else [])"
    using percentages_presigned[of env cfg b f cb "presigned_start cb tr"] r1 by auto
  have ps: "percentages (presigned_start cb tr) = percentages tr @ (if cb then [5, 10] else [])"
    by (simp add: presigned_start_def percentages_report)
  define n1 where "n1 = (if cb then 2 + k1 else 0)"
  have p1: "percentages tr1 = percentages tr @ take n1 [5, 10, 20, 40, 80, 100]"
    by (simp add: k1 ps n1_def)
  have srt: "sorted (take n [5, 10, 20, 40, 80, 100::nat])" "sorted (take n [20, 20, 40, 80, 100::nat])" for n
    by (rule sorted_wrt_take, simp)+
  have bnd: "list_all (\<lambda>p. p \<le> 100) (take n [5, 10, 20, 40, 80, 100::nat] @ take n' [20, 20, 40, 80, 100])" for n n'
    by (auto simp: list_all_iff dest!: in_set_takeD)
  show ?thesis
  proof (cases "falls_back r1")
    case False
    have "percentages (snd (downloadFromS3 env cfg b f cb tr))
        = percentages tr @ take n1 [5, 10, 20, 40, 80, 100] @ take 0 [20, 20, 40, 80, 100]"
      using no_fallback_trace[OF r1 False] p1 by simp
    then show ?thesis using srt bnd by blast
  next
    case True
    obtain k2 where k2: "k2 \<le> 4"
      "percentages (snd (downloadWithDirectSigning env cfg b f cb (direct_start cb tr1)))
        = percentages (direct_start cb tr1) @ (if cb then take k2 [20, 40, 80, 100] else [])"
      using percentages_direct[of env cfg b f cb "direct_start cb tr1"] by auto
    define n2 where "n2 = (if cb then 1 + k2 else 0)"
    have "percentages (snd (downloadFromS3 env cfg b f cb tr))
        = percentages tr @ take n1 [5, 10, 20, 40, 80, 100] @ take n2 [20, 20, 40, 80, 100]"
      using fallback_trace[OF r1 True] k2 p1
      by (simp add: direct_start_def percentages_report n2_def)
    moreover have "falls_back (fst (downloadWithPresignedUrl env cfg b f cb (presigned_start cb tr)))"
      using True r1 by simp
    ultimately show ?thesis using srt bnd by blast
  qed
qed

lemma presigned_probe_response:
  assumes "createPresignedUrl env cfg b (js ''__connection_test__'') 60 = Inr url"
    and "network_of env (fetches tr) url head_options = Inr resp"
  shows "presigned_probe env cfg b tr =
     (if status resp = 200 \<or> status resp = 404
      then Inr (Some \<lparr>success = True, diag_message = js ''AWS credentials valid (pre-signed URL)''\<rparr>)
      else Inr None, tr @ [FetchCall url head_options])"
  using assms by (simp add: presigned_probe_def fetch_def)

lemma direct_probe_response:
  assumes "network_of env (fetches tr)
      (js ''https://'' @ b @ js ''.s3.'' @ region cfg @ js ''.amazonaws.com/'') head_options = Inr resp"
  shows "direct_probe env cfg b tr =
     (if status resp = 200 \<or> status resp = 403
      then Inr (Some \<lparr>success = True, diag_message = js ''AWS setup valid (direct access)''\<rparr>)
      else Inr None,
      tr @ [FetchCall (js ''https://'' @ b @ js ''.s3.'' @ region cfg @ js ''.amazonaws.com/'') head_options])"
  using assms by (simp add: direct_probe_def fetch_def)

text \<open>
  Claim C7, as amended. When the presigned HEAD probe returns 200 or 404, the diagnostic
  is a success. When it returns another status, 403 included, the direct probe decides: a
  status of 200 or 403 is a success (so 403 on both probes is a success), any other status
  is the failure \<open>All connection test methods failed\<close>.
\<close>

theorem connection_diagnostic:
  assumes "createPresignedUrl env cfg b (js ''__connection_test__'') 60 = Inr url"
    and "network_of env (fetches tr) url head_options = Inr resp1"
  shows "(status resp1 = 200 \<or> status resp1 = 404 \<longrightarrow>
            fst (testS3Connection env cfg b tr)
              = \<lparr>success = True, diag_message = js ''AWS credentials valid (pre-signed URL)''\<rparr>)
       \<and> (\<forall>resp2. status resp1 \<noteq> 200 \<and> status resp1 \<noteq> 404
            \<and> network_of env (Suc (fetches tr))
                 (js ''https://'' @ b @ js ''.s3.'' @ region cfg @ js ''.amazonaws.com/'') head_options
               = Inr resp2
            \<longrightarrow> (status resp2 = 200 \<or> status resp2 = 403 \<longrightarrow>
                   fst (testS3Connection env cfg b tr)
                     = \<lparr>success = True, diag_message = js ''AWS setup valid (direct access)''\<rparr>)
              \<and> (status resp2 \<noteq> 200 \<and> status resp2 \<noteq> 403 \<longrightarrow>
                   fst (testS3Connection env cfg b tr)
                     = \<lparr>success = False,
                        diag_message = js ''Connection test failed: ''
                          @ js ''All connection test methods failed''\<rparr>))"
proof (intro conjI allI impI)
  assume "status resp1 = 200 \<or> status resp1 = 404"
  then show "fst (testS3Connection env cfg b tr)
      = \<lparr>success = True, diag_message = js ''AWS credentials valid (pre-signed URL)''\<rparr>"
    by (simp add: testS3Connection_def presigned_probe_response[OF assms])
next
  fix resp2
  assume a: "status resp1 \<noteq> 200 \<and> status resp1 \<noteq> 404
      \<and> network_of env (Suc (fetches tr))
           (js ''https://'' @ b @ js ''.s3.'' @ region cfg @ js ''.amazonaws.com/'') head_options
         = Inr resp2"
  have d: "network_of env (fetches (tr @ [FetchCall url head_options]))
      (js ''https://'' @ b @ js ''.s3.'' @ region cfg @ js ''.amazonaws.com/'') head_options = Inr resp2"
    using a by (simp add: fetches_snoc_fetch)
  {
    assume "status resp2 = 200 \<or> status resp2 = 403"
    then show "fst (testS3Connection env cfg b tr)
        = \<lparr>success = True, diag_message = js ''AWS setup valid (direct access)''\<rparr>"
      using a
      by (simp add: testS3Connection_def presigned_probe_response[OF assms] direct_probe_response[OF d])
  }
  {
    assume "status resp2 \<noteq> 200 \<and> status resp2 \<noteq> 403"
    then show "fst (testS3Connection env cfg b tr)
        = \<lparr>success = False,
           diag_message = js ''Connection test failed: '' @ js ''All connection test methods failed''\<rparr>"
      using a
      by (simp add: testS3Connection_def presigned_probe_response[OF assms] direct_probe_response[OF d]
          connection_failed_def)
  }
qed

lemma with_snd: "fst x = a \<Longrightarrow> x = (a, snd x)"
  by (cases x) simp

lemma example_presigned_forbidden:
  "fst (example_presigned False (always forbidden))
     = Inl (JSError (js ''Pre-signed URL download failed: 403 Forbidden''))"
  by code_simp

lemma example_presigned_server_error:
  "fst (example_presigned False (always server_error))
     = Inl (JSError (js ''Pre-signed URL download failed: 500 Internal Server Error''))"
  by code_simp

lemma example_direct_server_error:
  "fst (example_direct False (always server_error))
     = Inl (JSError (js ''Direct signed download failed: 500 Internal Server Error''))"
  by code_simp

lemma example_presigned_pdf:
  "fst (example_presigned True (always pdf_response))
     = Inr (example_result\<lparr>presignedUrl := js ''https://signed''\<rparr>)"
  by code_simp

lemma example_presigned_transport:
  "fst (example_presigned False (first_then 3 (Inl (JSError (js ''Failed to fetch''))) pdf_response))
     = Inl (JSError (js ''Failed to fetch''))"
  by code_simp

lemma example_direct_transport:
  "fst (example_direct False (first_then 3 (Inl (JSError (js ''Failed to fetch''))) pdf_response))
     = Inr example_result"
  by code_simp

lemma example_presigned_not_found:
  "fst (example_presigned True (first_then 1 (Inr not_found) pdf_response))
     = Inl (JSError (js ''Pre-signed URL download failed: 404 Not Found''))"
  by code_simp

lemma example_direct_not_found:
  "fst (example_direct True (first_then 1 (Inr not_found) pdf_response)) = Inr example_result"
  by code_simp

lemma forbidden_is_credential_issue:
  "credential_issue (js ''Pre-signed URL download failed: 403 Forbidden'')"
  by code_simp

lemma other_messages_no_credential_issue:
  "\<not> credential_issue (js ''Failed to fetch'')"
  "\<not> credential_issue (js ''Pre-signed URL download failed: 404 Not Found'')"
  "\<not> credential_issue (js ''Pre-signed URL download failed: 500 Internal Server Error'')"
  by code_simp+

theorem authorization_short_circuit_witness:
  "credential_issue (js ''Pre-signed URL download failed: 403 Forbidden'')
   \<and> example_download False (always forbidden)
       = (Inl (JSError (js ''Pre-signed URL download failed: 403 Forbidden'')),
          snd (example_presigned False (always forbidden)))
   \<and> fetches (snd (example_presigned False (always forbidden))) = 1"
proof (intro conjI)
  show "credential_issue (js ''Pre-signed URL download failed: 403 Forbidden'')"
    by (rule forbidden_is_credential_issue)
  show "example_download False (always forbidden)
       = (Inl (JSError (js ''Pre-signed URL download failed: 403 Forbidden'')),
          snd (example_presigned False (always forbidden)))"
    unfolding example_download_def
    by (rule authorization_short_circuit[
          OF with_snd[OF example_presigned_forbidden, unfolded example_presigned_def]
             forbidden_is_credential_issue, THEN conjunct1, folded example_presigned_def])
  show "fetches (snd (example_presigned False (always forbidden))) = 1"
    by code_simp
qed

theorem fallback_to_direct_signing_witness:
  "example_download True (always pdf_response) = example_presigned True (always pdf_response)
   \<and> example_download False (first_then 3 (Inl (JSError (js ''Failed to fetch''))) pdf_response)
       = (Inr example_result,
          snd (example_direct False (first_then 3 (Inl (JSError (js ''Failed to fetch''))) pdf_response)))
   \<and> example_download True (first_then 1 (Inr not_found) pdf_response)
       = (Inr example_result, snd (example_direct True (first_then 1 (Inr not_found) pdf_response)))"
proof (intro conjI)
  note T = fallback_to_direct_signing[of _ example_config "js ''docs''" "js ''a b.pdf''" _ "[]"]
  have "example_download True (always pdf_response)
      = (Inr (example_result\<lparr>presignedUrl := js ''https://signed''\<rparr>),
         snd (example_presigned True (always pdf_response)))"
    unfolding example_download_def
    by (rule T[THEN conjunct1, rule_format,
          OF with_snd[OF example_presigned_pdf, unfolded example_presigned_def],
          folded example_presigned_def])
  then show "example_download True (always pdf_response) = example_presigned True (always pdf_response)"
    by (simp only: with_snd[OF example_presigned_pdf, symmetric])
  show "example_download False (first_then 3 (Inl (JSError (js ''Failed to fetch''))) pdf_response)
       = (Inr example_result,
          snd (example_direct False (first_then 3 (Inl (JSError (js ''Failed to fetch''))) pdf_response)))"
    unfolding example_download_def
    by (rule T[THEN conjunct2, rule_format,
          OF with_snd[OF example_presigned_transport, unfolded example_presigned_def]
             other_messages_no_credential_issue(1),
          THEN conjunct2, rule_format,
          OF with_snd[OF example_direct_transport, unfolded example_direct_def example_presigned_def],
          folded example_presigned_def, folded example_direct_def])
  show "example_download True (first_then 1 (Inr not_found) pdf_response)
       = (Inr example_result, snd (example_direct True (first_then 1 (Inr not_found) pdf_response)))"
    unfolding example_download_def
    by (rule T[THEN conjunct2, rule_format,
          OF with_snd[OF example_presigned_not_found, unfolded example_presigned_def]
             other_messages_no_credential_issue(2),
          THEN conjunct2, rule_format,
          OF with_snd[OF example_direct_not_found, unfolded example_direct_def example_presigned_def],
          folded example_presigned_def, folded example_direct_def])
qed


lemma example_download_server_error:
  "example_download False (always server_error)
       = (Inl (JSError (js ''Direct signed download failed: 500 Internal Server Error'')),
          snd (example_direct False (always server_error)))"
  unfolding example_download_def
  by (rule both_strategies_throw[
        OF with_snd[OF example_presigned_server_error, unfolded example_presigned_def]
           other_messages_no_credential_issue(3)
           with_snd[OF example_direct_server_error, unfolded example_direct_def example_presigned_def],
        folded example_presigned_def, folded example_direct_def])

text \<open>
  Claim C8 as stated fails: with status 500 on every request the thrown error is the plain
  error of the second strategy, with no count of tried methods in its message.
\<close>

theorem exhausted_failure_counterexample:
  "fst (example_download False (always server_error))
     = Inl (JSError (js ''Direct signed download failed: 500 Internal Server Error''))
   \<and> \<not> str_includes (js ''Direct signed download failed: 500 Internal Server Error'') (js ''tried'')
   \<and> \<not> str_includes (js ''Direct signed download failed: 500 Internal Server Error'') (js ''methods'')"
proof (intro conjI)
  show "fst (example_download False (always server_error))
     = Inl (JSError (js ''Direct signed download failed: 500 Internal Server Error''))"
    by (simp only: example_download_server_error fst_conv)
  show "\<not> str_includes (js ''Direct signed download failed: 500 Internal Server Error'') (js ''tried'')"
    by code_simp
  show "\<not> str_includes (js ''Direct signed download failed: 500 Internal Server Error'') (js ''methods'')"
    by code_simp
qed

theorem exhausted_throws_last_error_witness:
  "\<not> credential_issue (js ''Pre-signed URL download failed: 500 Internal Server Error'')
   \<and> example_download False (always server_error)
       = (Inl (JSError (js ''Direct signed download failed: 500 Internal Server Error'')),
          snd (example_direct False (always server_error)))"
proof (intro conjI)
  show "\<not> credential_issue (js ''Pre-signed URL download failed: 500 Internal Server Error'')"
    by (rule other_messages_no_credential_issue(3))
  show "example_download False (always server_error)
       = (Inl (JSError (js ''Direct signed download failed: 500 Internal Server Error'')),
          snd (example_direct False (always server_error)))"
    unfolding example_download_def
    by (rule exhausted_throws_last_error[
          OF with_snd[OF example_presigned_server_error, unfolded example_presigned_def]
             other_messages_no_credential_issue(3)
             with_snd[OF example_direct_server_error, unfolded example_direct_def example_presigned_def],
          THEN conjunct1, folded example_presigned_def, folded example_direct_def])
qed

lemma example_not_found_falls_back:
  "falls_back (fst (example_presigned True (first_then 1 (Inr not_found) pdf_response)))"
  by (simp only: example_presigned_not_found falls_back_def sum.case jsthrown.case
      other_messages_no_credential_issue(2) not_False_eq_True)

lemma example_not_found_percentages:
  "percentages (snd (example_direct True (first_then 1 (Inr not_found) pdf_response)))
     = [5, 10, 20, 40, 20, 20, 40, 80, 100]"
  by code_simp

text \<open>
  Claim C9 as stated fails: with a 404 for the presigned URL and a 200 for the header-signed
  request, the percentage falls from 40 back to 20 at the fallback.
\<close>

theorem progress_monotone_counterexample:
  "percentages (snd (example_download True (first_then 1 (Inr not_found) pdf_response)))
     = [5, 10, 20, 40, 20, 20, 40, 80, 100]
   \<and> \<not> sorted [5, 10, 20, 40, 20, 20, 40, 80, 100 :: nat]"
proof (intro conjI)
  have "snd (example_download True (first_then 1 (Inr not_found) pdf_response))
      = snd (example_direct True (first_then 1 (Inr not_found) pdf_response))"
    unfolding example_download_def example_direct_def
    by (rule fallback_trace[
          OF with_snd[OF refl, of "example_presigned True (first_then 1 (Inr not_found) pdf_response)",
               unfolded example_presigned_def]
             example_not_found_falls_back[unfolded example_presigned_def],
          folded example_presigned_def])
  then show "percentages (snd (example_download True (first_then 1 (Inr not_found) pdf_response)))
     = [5, 10, 20, 40, 20, 20, 40, 80, 100]"
    by (simp only: example_not_found_percentages)
  show "\<not> sorted [5, 10, 20, 40, 20, 20, 40, 80, 100 :: nat]"
    by simp
qed

lemma example_pdf_no_fall_back:
  "\<not> falls_back (fst (example_presigned True (always pdf_response)))"
  by (simp only: example_presigned_pdf falls_back_def sum.case not_False_eq_True)

theorem progress_percentages_witness:
  "\<not> falls_back (fst (example_presigned True (always pdf_response)))
   \<and> (\<exists>n1. percentages (snd (example_download True (always pdf_response)))
        = take n1 [5, 10, 20, 40, 80, 100])"
proof (intro conjI)
  show h: "\<not> falls_back (fst (example_presigned True (always pdf_response)))"
    by (rule example_pdf_no_fall_back)
  from progress_percentages[of "example_env (always pdf_response)" example_config "js ''docs''"
      "js ''a b.pdf''" True "[]", folded example_presigned_def example_download_def]
  obtain n1 n2 where n: "percentages (snd (example_download True (always pdf_response)))
        = percentages [] @ take n1 [5, 10, 20, 40, 80, 100] @ take n2 [20, 20, 40, 80, 100]"
     "\<not> falls_back (fst (example_presigned True (always pdf_response))) \<longrightarrow> n2 = 0"
    by blast
  from n(2) h have "n2 = 0" by blast
  with n(1) have "percentages (snd (example_download True (always pdf_response)))
        = take n1 [5, 10, 20, 40, 80, 100]"
    by (simp only: percentages.simps take_0 append_Nil append_Nil2)
  then show "\<exists>n1. percentages (snd (example_download True (always pdf_response)))
        = take n1 [5, 10, 20, 40, 80, 100]" ..
qed

lemma example_urls:
  "createPresignedUrl (example_env net) example_config (js ''docs'') (js ''__connection_test__'') 60
      = Inr (js ''https://signed'')"
  "network_of (example_env (always r)) k u head_options = Inr r"
  by (simp_all add: example_env_def always_def)

lemma example_statuses:
  "status not_found = 404" "status forbidden = 403" "status server_error = 500"
  by (simp_all add: not_found_def forbidden_def server_error_def)

theorem connection_diagnostic_witness:
  "fst (testS3Connection (example_env (always not_found)) example_config (js ''docs'') [])
     = \<lparr>success = True, diag_message = js ''AWS credentials valid (pre-signed URL)''\<rparr>
   \<and> fst (testS3Connection (example_env (always forbidden)) example_config (js ''docs'') [])
     = \<lparr>success = True, diag_message = js ''AWS setup valid (direct access)''\<rparr>
   \<and> fst (testS3Connection (example_env (always server_error)) example_config (js ''docs'') [])
     = \<lparr>success = False,
        diag_message = js ''Connection test failed: '' @ js ''All connection test methods failed''\<rparr>"
proof (intro conjI)
  note T = connection_diagnostic[OF example_urls(1) example_urls(2), of _ "[]"]
  show "fst (testS3Connection (example_env (always not_found)) example_config (js ''docs'') [])
     = \<lparr>success = True, diag_message = js ''AWS credentials valid (pre-signed URL)''\<rparr>"
    by (rule T[THEN conjunct1, rule_format]) (simp only: example_statuses simp_thms)
  show "fst (testS3Connection (example_env (always forbidden)) example_config (js ''docs'') [])
     = \<lparr>success = True, diag_message = js ''AWS setup valid (direct access)''\<rparr>"
    by (rule T[THEN conjunct2, rule_format, of forbidden forbidden, THEN conjunct1, rule_format])
       (simp_all only: example_statuses example_urls simp_thms, simp_all)
  show "fst (testS3Connection (example_env (always server_error)) example_config (js ''docs'') [])
     = \<lparr>success = False,
        diag_message = js ''Connection test failed: '' @ js ''All connection test methods failed''\<rparr>"
    by (rule T[THEN conjunct2, rule_format, of server_error server_error, THEN conjunct2, rule_format])
       (simp_all only: example_statuses example_urls simp_thms, simp_all)
qed

text \<open>
  Claim C7 as stated fails: with status 403 on both probes the diagnostic is a success.
\<close>

theorem connection_diagnostic_counterexample:
  "status forbidden = 403
   \<and> fetches (snd (testS3Connection (example_env (always forbidden)) example_config (js ''docs'') [])) = 2
   \<and> success (fst (testS3Connection (example_env (always forbidden)) example_config (js ''docs'') []))"
  by code_simp

section \<open>Properties of encodeS3Key\<close>

lemma unat_of_nat16: "n < 65536 \<Longrightarrow> unat (of_nat n :: 16 word) = n"
  by (simp add: unat_of_nat)

lemma unat_lt16: "unat (c :: 16 word) < 65536"
  using unsigned_less[of c, where 'a = nat] by simp

lemma is_lead_surrogate_unat: "is_lead_surrogate c = (0xD800 \<le> unat c \<and> unat c \<le> 0xDBFF)"
  by (simp add: is_lead_surrogate_def word_le_nat_alt)

lemma is_trail_surrogate_unat: "is_trail_surrogate c = (0xDC00 \<le> unat c \<and> unat c \<le> 0xDFFF)"
  by (simp add: is_trail_surrogate_def word_le_nat_alt)

lemma unat_hex_digit_upper:
  "d < 16 \<Longrightarrow> unat (hex_digit_upper d) = (if d < 10 then 48 + d else 55 + d)"
proof (cases "d < 10")
  case True
  have "unat (of_nat (0x30 + d) :: 16 word) = 0x30 + d"
    using True by (subst unat_of_nat) simp
  then show ?thesis using True by (simp only: hex_digit_upper_def if_True)
next
  case False
  assume "d < 16"
  have "unat (of_nat (0x41 + (d - 10)) :: 16 word) = 0x41 + (d - 10)"
    using \<open>d < 16\<close> by (subst unat_of_nat) simp
  moreover have "0x41 + (d - 10) = 55 + d" using False by simp
  ultimately show ?thesis using False by (simp only: hex_digit_upper_def if_False)
qed

lemma hex_value_upper: "d < 16 \<Longrightarrow> hex_value (hex_digit_upper d) = Some d"
  by (auto simp: hex_value_def unat_hex_digit_upper Let_def)

lemma unat_percent: "unat (0x25 :: 16 word) = 0x25"
  by simp

lemma parse_escape_percent_octet:
  "b < 256 \<Longrightarrow> parse_escape (percent_octet b @ rest) = Some b"
  by (simp add: percent_octet_def hex_value_upper)

lemma drop_percent_octet: "drop 3 (percent_octet b @ rest) = rest"
  by (simp add: percent_octet_def)

lemma parse_escapes_octets:
  "\<forall>b\<in>set bs. b < 256 \<Longrightarrow>
     parse_escapes (length bs) (concat (map percent_octet bs) @ rest) = Some bs"
proof (induction bs)
  case Nil
  then show ?case by simp
next
  case (Cons b bs)
  have b: "b < 256" and bs: "\<forall>b\<in>set bs. b < 256" using Cons.prems by simp_all
  have "parse_escapes (Suc (length bs)) (percent_octet b @ (concat (map percent_octet bs) @ rest))
      = Some (b # bs)"
    by (simp only: parse_escapes.simps parse_escape_percent_octet[OF b] drop_percent_octet
        Cons.IH[OF bs] option.case)
  then show ?case by simp
qed

lemma length_percent_octets: "length (concat (map percent_octet bs)) = 3 * length bs"
  by (induction bs) (simp_all add: percent_octet_def)

lemma toString16_upper_two:
  assumes "16 \<le> n" "n < 256"
  shows "0x25 # toString16_upper n = percent_octet n"
proof -
  have "n div 16 < 16" using assms by arith
  then have a: "toString16_upper (n div 16) = [hex_digit_upper (n div 16)]"
    by (subst toString16_upper.simps) simp
  show ?thesis
    using assms by (subst toString16_upper.simps) (simp add: a percent_octet_def)
qed


lemma decode_single_octet:
  assumes "b < 0x80"
  shows "decodeURIComponent (percent_octet b @ rest) =
     (case decodeURIComponent rest of Inl e \<Rightarrow> Inl e | Inr r \<Rightarrow> Inr (of_nat b # r))"
proof -
  have b: "b < 256" using assms by simp
  have p: "parse_escape (0x25 # hex_digit_upper (b div 16) # hex_digit_upper (b mod 16) # rest) = Some b"
    using parse_escape_percent_octet[OF b, of rest] by (simp add: percent_octet_def)
  have l: "leading_ones b = 0" using assms by (simp add: leading_ones_def)
  show ?thesis
    by (simp add: percent_octet_def decodeURIComponent.simps(2) p l del: parse_escape.simps)
qed

lemma decode_octets:
  assumes "leading_ones b0 = Suc (length bs)" "1 \<le> length bs" "length bs \<le> 3"
    and "\<forall>b\<in>set (b0 # bs). b < 256" and "utf8_decode (b0 # bs) = Some v"
  shows "decodeURIComponent (concat (map percent_octet (b0 # bs)) @ rest) =
     (case decodeURIComponent rest of Inl e \<Rightarrow> Inl e | Inr r \<Rightarrow> Inr (utf16_encode v @ r))"
proof -
  let ?tail = "concat (map percent_octet bs) @ rest"
  have b: "b0 < 256" and bs: "\<forall>b\<in>set bs. b < 256" using assms(4) by simp_all
  have p: "parse_escape (0x25 # hex_digit_upper (b0 div 16) # hex_digit_upper (b0 mod 16) # ?tail) = Some b0"
    using parse_escape_percent_octet[OF b, of ?tail] by (simp add: percent_octet_def)
  have q: "parse_escapes (length bs) ?tail = Some bs"
    by (rule parse_escapes_octets[OF bs])
  have d: "drop (3 * length bs) ?tail = rest"
    by (simp add: length_percent_octets)
  have l: "leading_ones b0 \<noteq> 0" "leading_ones b0 \<noteq> 1" "\<not> 4 < leading_ones b0"
    "leading_ones b0 - 1 = length bs"
    using assms(1,2,3) by arith+
  have "decodeURIComponent (0x25 # hex_digit_upper (b0 div 16) # hex_digit_upper (b0 mod 16) # ?tail) =
     (case decodeURIComponent rest of Inl e \<Rightarrow> Inl e | Inr r \<Rightarrow> Inr (utf16_encode v @ r))"
    apply (subst decodeURIComponent.simps)
    apply (simp only: p l q d assms(5) unat_percent option.case if_False if_True simp_thms
        drop_Suc_Cons drop_0 numeral_2_eq_2 add_Suc add_0 drop_drop
        refl)
    done
  then show ?thesis by (simp add: percent_octet_def)
qed


lemma mod64_le: "(x::nat) mod 0x40 \<le> 63"
  using mod_less_divisor[of "0x40" x] by simp

lemma recompose_three:
  "(q2::nat) * 0x40 + m = q1 \<Longrightarrow> q1 * 0x40 + r = v \<Longrightarrow> q2 * 0x1000 + m * 0x40 + r = v"
  by auto

lemma recompose_four:
  "(q3::nat) * 0x40 + n = q2 \<Longrightarrow> q2 * 0x40 + m = q1 \<Longrightarrow> q1 * 0x40 + r = v
    \<Longrightarrow> q3 * 0x40000 + n * 0x1000 + m * 0x40 + r = v"
  by auto

lemma utf8_two:
  assumes "0x80 \<le> v" "v < 0x800"
  shows "utf8_encode v = [0xC0 + v div 0x40, 0x80 + v mod 0x40]"
    and "leading_ones (0xC0 + v div 0x40) = 2"
    and "utf8_decode [0xC0 + v div 0x40, 0x80 + v mod 0x40] = Some v"
    and "0xC0 + v div 0x40 < 256" and "0x80 + v mod 0x40 < 256"
proof -
  have d: "v div 0x40 < 0x20" using assms by arith
  show "utf8_encode v = [0xC0 + v div 0x40, 0x80 + v mod 0x40]"
    using assms by (simp add: utf8_encode_def)
  show "leading_ones (0xC0 + v div 0x40) = 2" using d by (simp add: leading_ones_def)
  show "utf8_decode [0xC0 + v div 0x40, 0x80 + v mod 0x40] = Some v"
    using d assms by (simp add: is_continuation_def Let_def)
  show "0xC0 + v div 0x40 < 256" "0x80 + v mod 0x40 < 256" using d by simp_all
qed

lemma utf8_three:
  assumes "0x800 \<le> v" "v < 0x10000" "\<not> (0xD800 \<le> v \<and> v \<le> 0xDFFF)"
  shows "utf8_encode v = [0xE0 + v div 0x1000, 0x80 + v div 0x40 mod 0x40, 0x80 + v mod 0x40]"
    and "leading_ones (0xE0 + v div 0x1000) = 3"
    and "utf8_decode [0xE0 + v div 0x1000, 0x80 + v div 0x40 mod 0x40, 0x80 + v mod 0x40] = Some v"
    and "0xE0 + v div 0x1000 < 256" and "0x80 + v div 0x40 mod 0x40 < 256" and "0x80 + v mod 0x40 < 256"
proof -
  have d: "v div 0x1000 < 0x10" using assms by arith
  have e: "v div 0x1000 * 0x1000 + v div 0x40 mod 0x40 * 0x40 + v mod 0x40 = v"
  proof -
    have "v div 0x1000 = v div 0x40 div 0x40" by (simp add: div_mult2_eq)
    then show ?thesis
      by (simp only:) (rule recompose_three[OF div_mult_mod_eq div_mult_mod_eq])
  qed
  show "utf8_encode v = [0xE0 + v div 0x1000, 0x80 + v div 0x40 mod 0x40, 0x80 + v mod 0x40]"
    using assms by (simp add: utf8_encode_def)
  show "leading_ones (0xE0 + v div 0x1000) = 3" using d by (simp add: leading_ones_def)
  show "utf8_decode [0xE0 + v div 0x1000, 0x80 + v div 0x40 mod 0x40, 0x80 + v mod 0x40] = Some v"
    using d e assms by (simp add: is_continuation_def Let_def mod64_le)
  show "0xE0 + v div 0x1000 < 256" "0x80 + v div 0x40 mod 0x40 < 256" "0x80 + v mod 0x40 < 256"
    using d by simp_all
qed

lemma utf8_four:
  assumes "0x10000 \<le> v" "v \<le> 0x10FFFF"
  shows "utf8_encode v = [0xF0 + v div 0x40000, 0x80 + v div 0x1000 mod 0x40,
                          0x80 + v div 0x40 mod 0x40, 0x80 + v mod 0x40]"
    and "leading_ones (0xF0 + v div 0x40000) = 4"
    and "utf8_decode [0xF0 + v div 0x40000, 0x80 + v div 0x1000 mod 0x40,
                      0x80 + v div 0x40 mod 0x40, 0x80 + v mod 0x40] = Some v"
    and "0xF0 + v div 0x40000 < 256" and "0x80 + v div 0x1000 mod 0x40 < 256"
    and "0x80 + v div 0x40 mod 0x40 < 256" and "0x80 + v mod 0x40 < 256"
proof -
  have d: "v div 0x40000 < 5" using assms by arith
  have e: "v div 0x40000 * 0x40000 + v div 0x1000 mod 0x40 * 0x1000 + v div 0x40 mod 0x40 * 0x40
      + v mod 0x40 = v"
  proof -
    have "v div 0x1000 = v div 0x40 div 0x40" "v div 0x40000 = v div 0x40 div 0x40 div 0x40"
      by (simp_all add: div_mult2_eq)
    then show ?thesis
      by (simp only:) (rule recompose_four[OF div_mult_mod_eq div_mult_mod_eq div_mult_mod_eq])
  qed
  show "utf8_encode v = [0xF0 + v div 0x40000, 0x80 + v div 0x1000 mod 0x40,
                          0x80 + v div 0x40 mod 0x40, 0x80 + v mod 0x40]"
    using assms by (simp add: utf8_encode_def)
  show "leading_ones (0xF0 + v div 0x40000) = 4" using d by (simp add: leading_ones_def)
  show "utf8_decode [0xF0 + v div 0x40000, 0x80 + v div 0x1000 mod 0x40,
                      0x80 + v div 0x40 mod 0x40, 0x80 + v mod 0x40] = Some v"
    using d e assms by (simp add: is_continuation_def Let_def mod64_le)
  show "0xF0 + v div 0x40000 < 256" "0x80 + v div 0x1000 mod 0x40 < 256"
    "0x80 + v div 0x40 mod 0x40 < 256" "0x80 + v mod 0x40 < 256"
    using d by simp_all
qed

lemma utf16_single: "utf16_encode (unat (c :: 16 word)) = [c]"
  using unat_lt16[of c] by (simp add: utf16_encode_def)

lemma surrogate_pair_parts:
  assumes "is_lead_surrogate c" "is_trail_surrogate d"
  obtains h l where "unat c = 0xD800 + h" "h < 0x400" "unat d = 0xDC00 + l" "l < 0x400"
    "surrogate_pair_value c d = 0x10000 + (h * 0x400 + l)"
proof -
  have "unat c = 0xD800 + (unat c - 0xD800)" "unat c - 0xD800 < 0x400"
    "unat d = 0xDC00 + (unat d - 0xDC00)" "unat d - 0xDC00 < 0x400"
    using assms unfolding is_lead_surrogate_unat is_trail_surrogate_unat by linarith+
  moreover have "surrogate_pair_value c d = 0x10000 + ((unat c - 0xD800) * 0x400 + (unat d - 0xDC00))"
    by (simp add: surrogate_pair_value_def)
  ultimately show ?thesis using that by blast
qed

lemma surrogate_pair_range:
  assumes "is_lead_surrogate c" "is_trail_surrogate d"
  shows "0x10000 \<le> surrogate_pair_value c d" "surrogate_pair_value c d \<le> 0x10FFFF"
proof -
  obtain h l where p: "h < 0x400" "l < 0x400" "surrogate_pair_value c d = 0x10000 + (h * 0x400 + l)"
    using surrogate_pair_parts[OF assms] by metis
  show "0x10000 \<le> surrogate_pair_value c d" using p by simp
  have "h * 0x400 \<le> 0x3FF * 0x400" using p(1) by simp
  then show "surrogate_pair_value c d \<le> 0x10FFFF" using p by simp
qed

lemma utf16_pair:
  assumes "is_lead_surrogate c" "is_trail_surrogate d"
  shows "utf16_encode (surrogate_pair_value c d) = [c, d]"
proof -
  obtain h l where p: "unat c = 0xD800 + h" "h < 0x400" "unat d = 0xDC00 + l" "l < 0x400"
    "surrogate_pair_value c d = 0x10000 + (h * 0x400 + l)"
    using surrogate_pair_parts[OF assms] by metis
  have a: "(surrogate_pair_value c d - 0x10000) div 0x400 + 0xD800 = unat c"
    using p by simp
  have b: "(surrogate_pair_value c d - 0x10000) mod 0x400 + 0xDC00 = unat d"
    using p by simp
  have "\<not> surrogate_pair_value c d \<le> 0xFFFF" using p by simp
  then show ?thesis by (simp only: utf16_encode_def if_False a b) simp
qed


lemma escape_marks_Nil: "escape_marks [] = []"
  by (simp add: escape_marks_def replace_class_def)

lemma escape_marks_append: "escape_marks (a @ b) = escape_marks a @ escape_marks b"
  by (simp add: escape_marks_def replace_class_def)

lemma mark_iff:
  "(c \<in> set [0x21, 0x27, 0x28, 0x29, 0x2A :: 16 word]) = (unat c \<in> {0x21, 0x27, 0x28, 0x29, 0x2A})"
  by (auto simp: word_unat_eq_iff)

lemma escape_marks_Cons:
  "escape_marks (c # s) =
     (if unat c \<in> {0x21, 0x27, 0x28, 0x29, 0x2A} then percent_octet (unat c) else [c]) @ escape_marks s"
proof (cases "unat c \<in> {0x21, 0x27, 0x28, 0x29, 0x2A}")
  case True
  then have "16 \<le> unat c" "unat c < 256" by auto
  then have "0x25 # toString16_upper (unat c) = percent_octet (unat c)"
    by (rule toString16_upper_two)
  then show ?thesis using True
    by (simp add: escape_marks_def replace_class_def mark_iff del: set_simps)
next
  case False
  then show ?thesis
    by (simp add: escape_marks_def replace_class_def mark_iff del: set_simps)
qed

lemma kept_hex_digit: "d < 16 \<Longrightarrow> kept (hex_digit_upper d)"
  by (auto simp: kept_def unat_hex_digit_upper Let_def)

lemma kept_percent: "kept 0x25"
  by (simp add: kept_def)

lemma kept_not_mark: "kept c \<Longrightarrow> unat c \<notin> {0x21, 0x27, 0x28, 0x29, 0x2A}"
  by (auto simp: kept_def Let_def)

lemma kept_percent_octet: "b < 256 \<Longrightarrow> \<forall>c\<in>set (percent_octet b). kept c"
proof -
  assume "b < 256"
  then have "b div 16 < 16" "b mod 16 < 16" by arith+
  then show ?thesis by (simp add: percent_octet_def kept_hex_digit kept_percent)
qed

lemma escape_marks_kept: "\<forall>c\<in>set t. kept c \<Longrightarrow> escape_marks t = t"
proof (induction t)
  case Nil
  then show ?case by (simp add: escape_marks_Nil)
next
  case (Cons c t)
  then have "unat c \<notin> {0x21, 0x27, 0x28, 0x29, 0x2A}" using kept_not_mark by simp
  then show ?case using Cons by (simp only: escape_marks_Cons if_False) simp
qed

lemma kept_octets:
  "\<forall>b\<in>set bs. b < 256 \<Longrightarrow> \<forall>c\<in>set (concat (map percent_octet bs)). kept c"
  using kept_percent_octet by auto

lemma utf8_encode_bytes: "v \<le> 0x10FFFF \<Longrightarrow> \<forall>b\<in>set (utf8_encode v). b < 256"
proof -
  assume v: "v \<le> 0x10FFFF"
  have "v div 0x40 < 0x20" if "v < 0x800" using that by arith
  moreover have "v div 0x1000 < 0x10" if "v < 0x10000" using that by arith
  moreover have "v div 0x40000 < 5" using v by arith
  ultimately show ?thesis
    using mod64_le[of v] mod64_le[of "v div 0x40"] mod64_le[of "v div 0x1000"]
    by (auto simp: utf8_encode_def)
qed


lemma unescaped_not_percent: "uriUnescaped c \<Longrightarrow> unat c \<noteq> 0x25"
  by (auto simp: uriUnescaped_def Let_def)

lemma unescaped_kept_or_mark:
  "uriUnescaped c \<Longrightarrow> kept c \<or> unat c \<in> {0x21, 0x27, 0x28, 0x29, 0x2A}"
  by (auto simp: uriUnescaped_def kept_def Let_def)

lemma decode_copy:
  "unat c \<noteq> 0x25 \<Longrightarrow> decodeURIComponent (c # rest) =
     (case decodeURIComponent rest of Inl e \<Rightarrow> Inl e | Inr r \<Rightarrow> Inr (c # r))"
  by (simp add: decodeURIComponent.simps(2))

text \<open>What the encoder writes for one code point, after the marks have been escaped.\<close>

lemma decode_code_point:
  assumes "v \<le> 0x10FFFF" "\<not> (0xD800 \<le> v \<and> v \<le> 0xDFFF)"
  shows "decodeURIComponent (concat (map percent_octet (utf8_encode v)) @ rest) =
     (case decodeURIComponent rest of Inl e \<Rightarrow> Inl e | Inr r \<Rightarrow> Inr (utf16_encode v @ r))"
proof -
  consider "v < 0x80" | "0x80 \<le> v" "v < 0x800" | "0x800 \<le> v" "v < 0x10000" | "0x10000 \<le> v"
    by linarith
  then show ?thesis
  proof cases
    case 1
    then have "utf8_encode v = [v]" "utf16_encode v = [of_nat v]"
      by (simp_all add: utf8_encode_def utf16_encode_def)
    then show ?thesis using decode_single_octet[OF 1, of rest] by (simp cong: sum.case_cong)
  next
    case 2
    note u = utf8_two[OF 2]
    show ?thesis
      unfolding u(1)
      by (rule decode_octets[OF _ _ _ _ u(3)]) (simp_all add: u(2,4,5))
  next
    case 3
    note u = utf8_three[OF 3 assms(2)]
    show ?thesis
      unfolding u(1)
      by (rule decode_octets[OF _ _ _ _ u(3)]) (simp_all add: u(2,4,5,6))
  next
    case 4
    note u = utf8_four[OF 4 assms(1)]
    show ?thesis
      unfolding u(1)
      by (rule decode_octets[OF _ _ _ _ u(3)]) (simp_all add: u(2,4,5,6,7))
  qed
qed

lemma escape_marks_code_point:
  "v \<le> 0x10FFFF \<Longrightarrow>
     escape_marks (concat (map percent_octet (utf8_encode v)) @ r)
       = concat (map percent_octet (utf8_encode v)) @ escape_marks r"
  using escape_marks_kept[OF kept_octets[OF utf8_encode_bytes]]
  by (simp add: escape_marks_append)

lemma decode_encoded:
  "encodeURIComponent p = Inr s \<Longrightarrow>
     decodeURIComponent (escape_marks s @ rest) =
       (case decodeURIComponent rest of Inl e \<Rightarrow> Inl e | Inr r \<Rightarrow> Inr (p @ r))"
proof (induction p arbitrary: s rule: encodeURIComponent.induct)
  case 1
  then show ?case by (simp add: escape_marks_Nil split: sum.splits)
next
  case (2 c cs)
  show ?case
  proof (cases "uriUnescaped c")
    case True
    then obtain r where r: "encodeURIComponent cs = Inr r" and s: "s = c # r"
      using "2.prems" by (auto split: sum.splits)
    note ih = "2.IH"(1)[OF True r]
    show ?thesis
    proof (cases "unat c \<in> {0x21, 0x27, 0x28, 0x29, 0x2A}")
      case mark: True
      then have lt: "unat c < 0x80" by auto
      have "decodeURIComponent (percent_octet (unat c) @ (escape_marks r @ rest)) =
          (case decodeURIComponent rest of Inl e \<Rightarrow> Inl e | Inr r \<Rightarrow> Inr (c # cs @ r))"
        by (simp add: decode_single_octet[OF lt] ih split: sum.splits)
      then show ?thesis using mark
        by (simp add: s escape_marks_Cons del: insert_iff cong: sum.case_cong)
    next
      case False
      have "decodeURIComponent (c # (escape_marks r @ rest)) =
          (case decodeURIComponent rest of Inl e \<Rightarrow> Inl e | Inr r \<Rightarrow> Inr (c # cs @ r))"
        by (simp add: decode_copy[OF unescaped_not_percent[OF True]] ih split: sum.splits)
      then show ?thesis using False
        by (simp add: s escape_marks_Cons del: insert_iff cong: sum.case_cong)
    qed
  next
    case esc: False
    show ?thesis
    proof (cases "is_lead_surrogate c")
      case True
      then obtain d ds r where cs: "cs = d # ds" and d: "is_trail_surrogate d"
        and r: "encodeURIComponent ds = Inr r"
        and s: "s = concat (map percent_octet (utf8_encode (surrogate_pair_value c d))) @ r"
        using "2.prems" esc by (auto split: sum.splits list.splits if_splits)
      note ih = "2.IH"(2)[OF esc True cs d r]
      note rg = surrogate_pair_range[OF True d]
      have ns: "\<not> (0xD800 \<le> surrogate_pair_value c d \<and> surrogate_pair_value c d \<le> 0xDFFF)"
        using rg by simp
      show ?thesis
        by (simp add: s cs escape_marks_code_point[OF rg(2)] decode_code_point[OF rg(2) ns] ih
            utf16_pair[OF True d] split: sum.splits cong: sum.case_cong)
    next
      case False
      then have nt: "\<not> is_trail_surrogate c" using "2.prems" esc by (auto split: if_splits)
      obtain r where r: "encodeURIComponent cs = Inr r"
        and s: "s = concat (map percent_octet (utf8_encode (unat c))) @ r"
        using "2.prems" esc False nt by (auto split: sum.splits)
      note ih = "2.IH"(3)[OF esc False nt r]
      have le: "unat c \<le> 0x10FFFF" using unat_lt16[of c] by simp
      have ns: "\<not> (0xD800 \<le> unat c \<and> unat c \<le> 0xDFFF)"
        using False nt by (auto simp: is_lead_surrogate_unat is_trail_surrogate_unat)
      show ?thesis
        by (simp add: s escape_marks_code_point[OF le] decode_code_point[OF le ns] ih
            utf16_single split: sum.splits cong: sum.case_cong)
    qed
  qed
qed


lemma replace_all_absent: "c \<notin> set t \<Longrightarrow> replace_all [c] rep t = t"
  by (induction t) auto

lemma starts_with_append_drop: "starts_with s p \<Longrightarrow> p @ drop (length p) s = s"
  by (induction s p rule: starts_with.induct) auto

lemma replace_all_same_aux: "rep = pat \<Longrightarrow> replace_all pat rep t = t"
proof (induction pat rep t rule: replace_all.induct)
  case (1 pat rep)
  then show ?case by simp
next
  case (2 pat rep c cs)
  show ?case
  proof (cases "pat \<noteq> [] \<and> starts_with (c # cs) pat")
    case True
    then obtain q qs where pat: "pat = q # qs" by (cases pat) auto
    have "pat @ drop (length pat) (c # cs) = c # cs"
      using True by (intro starts_with_append_drop) simp
    then have "pat @ drop (length pat - 1) cs = c # cs" by (simp add: pat)
    then show ?thesis using True "2.IH"(1) "2.prems" by simp
  next
    case False
    then show ?thesis using "2.IH"(2) "2.prems" by auto
  qed
qed

lemma replace_all_same: "replace_all pat pat t = t"
  by (rule replace_all_same_aux[OF refl])

lemma not_kept_absent: "\<forall>x\<in>set t. kept x \<Longrightarrow> \<not> kept c \<Longrightarrow> c \<notin> set t"
  by auto

lemma not_kept_specials:
  "\<not> kept 0x28" "\<not> kept 0x29" "\<not> kept 0x5B" "\<not> kept 0x5D" "\<not> kept 0x7B" "\<not> kept 0x7D"
  "\<not> kept 0x23" "\<not> kept 0x3F" "\<not> kept 0x26" "\<not> kept 0x3D" "\<not> kept 0x2B" "\<not> kept slash"
  by (simp_all add: kept_def slash_def)

lemma escape_special_kept:
  assumes "\<forall>x\<in>set (escape_marks s). kept x"
  shows "escape_special s = escape_marks s"
proof -
  note a = not_kept_absent[OF assms]
  have j: "js ''('' = [0x28]" "js '')'' = [0x29]" "js ''['' = [0x5B]" "js '']'' = [0x5D]"
    "js ''{'' = [0x7B]" "js ''}'' = [0x7D]" "js ''#'' = [0x23]" "js ''?'' = [0x3F]"
    "js ''&'' = [0x26]" "js ''='' = [0x3D]" "js ''+'' = [0x2B]"
    by (simp_all add: js_def)
  show ?thesis
    unfolding escape_special_def
    by (simp only: fold_simps prod.case j id_apply o_apply
        replace_all_absent[OF a[OF not_kept_specials(1)]]
        replace_all_absent[OF a[OF not_kept_specials(2)]]
        replace_all_absent[OF a[OF not_kept_specials(3)]]
        replace_all_absent[OF a[OF not_kept_specials(4)]]
        replace_all_absent[OF a[OF not_kept_specials(5)]]
        replace_all_absent[OF a[OF not_kept_specials(6)]]
        replace_all_absent[OF a[OF not_kept_specials(7)]]
        replace_all_absent[OF a[OF not_kept_specials(8)]]
        replace_all_absent[OF a[OF not_kept_specials(9)]]
        replace_all_absent[OF a[OF not_kept_specials(10)]]
        replace_all_absent[OF a[OF not_kept_specials(11)]]
        replace_all_same)
qed

lemma encoded_kept:
  "encodeURIComponent p = Inr s \<Longrightarrow> \<forall>x\<in>set (escape_marks s). kept x"
proof (induction p arbitrary: s rule: encodeURIComponent.induct)
  case 1
  then show ?case by (simp add: escape_marks_Nil)
next
  case (2 c cs)
  show ?case
  proof (cases "uriUnescaped c")
    case True
    then obtain r where r: "encodeURIComponent cs = Inr r" and s: "s = c # r"
      using "2.prems" by (auto split: sum.splits)
    note ih = "2.IH"(1)[OF True r]
    show ?thesis
    proof (cases "unat c \<in> {0x21, 0x27, 0x28, 0x29, 0x2A}")
      case mark: True
      then have "unat c < 256" by auto
      then show ?thesis using mark ih kept_percent_octet[of "unat c"]
        by (auto simp add: s escape_marks_Cons simp del: insert_iff)
    next
      case False
      then have "kept c" using unescaped_kept_or_mark[OF True] by blast
      then show ?thesis using False ih by (simp add: s escape_marks_Cons del: insert_iff)
    qed
  next
    case esc: False
    show ?thesis
    proof (cases "is_lead_surrogate c")
      case True
      then obtain d ds r where cs: "cs = d # ds" and d: "is_trail_surrogate d"
        and r: "encodeURIComponent ds = Inr r"
        and s: "s = concat (map percent_octet (utf8_encode (surrogate_pair_value c d))) @ r"
        using "2.prems" esc by (auto split: sum.splits list.splits if_splits)
      note ih = "2.IH"(2)[OF esc True cs d r]
      note rg = surrogate_pair_range[OF True d]
      show ?thesis
        using ih kept_octets[OF utf8_encode_bytes[OF rg(2)]]
        by (simp add: s escape_marks_code_point[OF rg(2)] ball_Un)
    next
      case False
      then have nt: "\<not> is_trail_surrogate c" using "2.prems" esc by (auto split: if_splits)
      obtain r where r: "encodeURIComponent cs = Inr r"
        and s: "s = concat (map percent_octet (utf8_encode (unat c))) @ r"
        using "2.prems" esc False nt by (auto split: sum.splits)
      note ih = "2.IH"(3)[OF esc False nt r]
      have le: "unat c \<le> 0x10FFFF" using unat_lt16[of c] by simp
      show ?thesis
        using ih kept_octets[OF utf8_encode_bytes[OF le]]
        by (simp add: s escape_marks_code_point[OF le] ball_Un)
    qed
  qed
qed

lemma encode_part_Inr:
  assumes "encode_part p = Inr s"
  shows "\<forall>x\<in>set s. kept x"
    and "decodeURIComponent (s @ rest) =
       (case decodeURIComponent rest of Inl e \<Rightarrow> Inl e | Inr r \<Rightarrow> Inr (p @ r))"
proof -
  obtain t where t: "encodeURIComponent p = Inr t" and s: "s = escape_special t"
    using assms by (auto simp: encode_part_def split: sum.splits)
  have e: "escape_special t = escape_marks t"
    by (rule escape_special_kept[OF encoded_kept[OF t]])
  show "\<forall>x\<in>set s. kept x" using encoded_kept[OF t] by (simp add: s e)
  show "decodeURIComponent (s @ rest) =
       (case decodeURIComponent rest of Inl e \<Rightarrow> Inl e | Inr r \<Rightarrow> Inr (p @ r))"
    using decode_encoded[OF t] by (simp add: s e)
qed


lemma decode_Nil: "decodeURIComponent [] = Inr []"
  by simp

lemma unat_slash: "unat slash = 0x2F"
  by (simp add: slash_def)

lemma decode_slash:
  "decodeURIComponent (slash # rest) =
     (case decodeURIComponent rest of Inl e \<Rightarrow> Inl e | Inr r \<Rightarrow> Inr (slash # r))"
  by (rule decode_copy) (simp add: unat_slash)

lemma split_on_not_Nil: "split_on sep s \<noteq> []"
  by (induction s) (auto split: list.splits)

lemma join_split: "join_with sep (split_on sep s) = s"
proof (induction s)
  case Nil
  then show ?case by simp
next
  case (Cons c s)
  obtain p ps where sp: "split_on sep s = p # ps"
    using split_on_not_Nil[of sep s] by (cases "split_on sep s") auto
  show ?case
  proof (cases "c = sep")
    case True
    then show ?thesis using Cons sp by simp
  next
    case False
    then show ?thesis using Cons sp by (cases ps) simp_all
  qed
qed

lemma split_join:
  "ps \<noteq> [] \<Longrightarrow> \<forall>p\<in>set ps. sep \<notin> set p \<Longrightarrow> split_on sep (join_with sep ps) = ps"
proof (induction sep ps rule: join_with.induct)
  case (1 sep)
  then show ?case by simp
next
  case (2 sep p)
  then have "sep \<notin> set p" by simp
  then show ?case by (induction p) auto
next
  case (3 sep p q ps)
  have ih: "split_on sep (join_with sep (q # ps)) = q # ps" using 3 by simp
  have "sep \<notin> set p" using "3.prems" by simp
  then have "split_on sep (p @ sep # join_with sep (q # ps)) = p # q # ps"
    by (induction p) (auto simp: ih)
  then show ?case by simp
qed

lemma map_throwing_Inr:
  "map_throwing f xs = Inr ys \<Longrightarrow> list_all2 (\<lambda>x y. f x = Inr y) xs ys"
  by (induction xs arbitrary: ys) (auto split: sum.splits)

lemma decode_joined:
  "list_all2 (\<lambda>p s. encode_part p = Inr s) parts ps \<Longrightarrow>
     decodeURIComponent (join_with slash ps) = Inr (join_with slash parts)"
proof (induction slash ps arbitrary: parts rule: join_with.induct)
  case 1
  then show ?case by simp
next
  case (2 s)
  then obtain p where parts: "parts = [p]" and e: "encode_part p = Inr s"
    by (auto simp: list_all2_Cons2)
  show ?case using encode_part_Inr(2)[OF e, of "[]"] by (simp add: parts)
next
  case (3 s t ps)
  then obtain p rest where parts: "parts = p # rest" and e: "encode_part p = Inr s"
    and r: "list_all2 (\<lambda>p s. encode_part p = Inr s) rest (t # ps)"
    by (auto simp: list_all2_Cons2)
  obtain q qs where rest: "rest = q # qs" using r by (cases rest) auto
  have ih: "decodeURIComponent (join_with slash (t # ps)) = Inr (join_with slash rest)"
    using "3.hyps" r by simp
  show ?case
    using encode_part_Inr(2)[OF e, of "slash # join_with slash (t # ps)"]
    by (simp add: parts rest decode_slash ih[unfolded rest])
qed

lemma kept_not_slash: "\<forall>x\<in>set s. kept x \<Longrightarrow> slash \<notin> set s"
  using not_kept_specials(12) by auto

lemma encodeS3Key_Inr:
  assumes "encodeS3Key k = Inr out"
  obtains ps where "list_all2 (\<lambda>p s. encode_part p = Inr s) (split_on slash (decodedKey k)) ps"
    and "out = join_with slash ps"
  using assms by (auto simp: encodeS3Key_def Let_def split: sum.splits dest: map_throwing_Inr)

lemma decode_encodeS3Key:
  assumes "encodeS3Key k = Inr out"
  shows "decodedKey out = decodedKey k"
proof -
  obtain ps where ps: "list_all2 (\<lambda>p s. encode_part p = Inr s) (split_on slash (decodedKey k)) ps"
    and out: "out = join_with slash ps"
    using encodeS3Key_Inr[OF assms] by blast
  have "decodeURIComponent out = Inr (join_with slash (split_on slash (decodedKey k)))"
    unfolding out by (rule decode_joined[OF ps])
  then show ?thesis by (simp add: decodedKey_def join_split)
qed

lemma segments_encodeS3Key:
  assumes "encodeS3Key k = Inr out"
  shows "segments out = segments (decodedKey k)"
proof -
  obtain ps where ps: "list_all2 (\<lambda>p s. encode_part p = Inr s) (split_on slash (decodedKey k)) ps"
    and out: "out = join_with slash ps"
    using encodeS3Key_Inr[OF assms] by blast
  have len: "length ps = length (split_on slash (decodedKey k))"
    using ps by (simp add: list_all2_lengthD)
  then have ne: "ps \<noteq> []" using split_on_not_Nil[of slash "decodedKey k"] by auto
  have "\<forall>s\<in>set ps. slash \<notin> set s"
  proof
    fix s assume "s \<in> set ps"
    then obtain p where "encode_part p = Inr s"
      using ps by (auto simp: list_all2_conv_all_nth in_set_conv_nth)
    then show "slash \<notin> set s" using encode_part_Inr(1) kept_not_slash by blast
  qed
  then have "split_on slash out = ps" unfolding out by (rule split_join[OF ne])
  then show ?thesis by (simp add: segments_def len)
qed

lemma decode_without_percent:
  "\<forall>c\<in>set k. unat c \<noteq> 0x25 \<Longrightarrow> decodeURIComponent k = Inr k"
  by (induction k) (simp_all add: decode_copy)

lemma segments_count: "segments s = Suc (count_list s slash)"
proof -
  have "length (split_on sep s) = Suc (count_list s sep)" for sep :: "16 word"
    by (induction s) (auto split: list.splits simp: split_on_not_Nil)
  then show ?thesis by (simp add: segments_def)
qed

text \<open>
  Claim C5. Encoding is idempotent: when \<open>encodeS3Key\<close> returns \<open>out\<close> for a key, it returns
  \<open>out\<close> again for \<open>out\<close>, because the percent-decoding it starts with gives back the
  decoded key that \<open>out\<close> was made from.
\<close>

theorem encodeS3Key_idempotent:
  assumes "encodeS3Key k = Inr out"
  shows "encodeS3Key out = Inr out \<and> decodedKey out = decodedKey k"
  using assms decode_encodeS3Key[OF assms] by (simp add: encodeS3Key_def)

lemma example_key_encoded:
  "encodeS3Key (js ''folder/My File (final).pdf'') = Inr (js ''folder/My%20File%20%28final%29.pdf'')"
  by code_simp

theorem encodeS3Key_idempotent_witness:
  "encodeS3Key (js ''folder/My File (final).pdf'') = Inr (js ''folder/My%20File%20%28final%29.pdf'')
   \<and> encodeS3Key (js ''folder/My%20File%20%28final%29.pdf'')
       = Inr (js ''folder/My%20File%20%28final%29.pdf'')"
proof -
  note h = example_key_encoded
  show ?thesis using encodeS3Key_idempotent[OF h] h by (simp only: simp_thms)
qed

text \<open>
  Claim C6, as amended. The result of \<open>encodeS3Key\<close> has as many segments, and as many
  slashes, as the percent-decoded key (the key itself when it cannot be decoded); it has as
  many segments as the key when the key holds no percent sign.
\<close>

theorem encodeS3Key_segments:
  assumes "encodeS3Key k = Inr out"
  shows "segments out = segments (decodedKey k)
       \<and> count_list out slash = count_list (decodedKey k) slash
       \<and> ((\<forall>c\<in>set k. unat c \<noteq> 0x25) \<longrightarrow> segments out = segments k)"
  using segments_encodeS3Key[OF assms] decode_without_percent[of k]
  by (auto simp: decodedKey_def segments_count)

theorem encodeS3Key_segments_witness:
  "encodeS3Key (js ''folder/My File (final).pdf'') = Inr (js ''folder/My%20File%20%28final%29.pdf'')
   \<and> list_all (\<lambda>c. unat c \<noteq> 0x25) (js ''folder/My File (final).pdf'')
   \<and> segments (js ''folder/My%20File%20%28final%29.pdf'') = segments (js ''folder/My File (final).pdf'')"
proof -
  note h = example_key_encoded
  have l: "list_all (\<lambda>c. unat c \<noteq> 0x25) (js ''folder/My File (final).pdf'')"
    by code_simp
  then have p: "\<forall>c\<in>set (js ''folder/My File (final).pdf''). unat c \<noteq> 0x25"
    by (simp only: list_all_iff)
  show ?thesis
    using encodeS3Key_segments[OF h, THEN conjunct2, THEN conjunct2, rule_format, OF p[rule_format]] h l
    by (simp only: simp_thms)
qed

text \<open>
  Claim C6 as stated fails: the key \<open>a%2Fb\<close> has one segment and its encoding \<open>a/b\<close> two.
\<close>

theorem encodeS3Key_segments_counterexample:
  "encodeS3Key (js ''a%2Fb'') = Inr (js ''a/b'')
   \<and> segments (js ''a%2Fb'') = 1 \<and> segments (js ''a/b'') = 2"
  by code_simp

section \<open>Properties of createSigningKey\<close>

lemma js_append: "js (a @ b) = js a @ js b"
  by (simp add: js_def)

lemma unat_js_char: "unat (of_nat (of_char c) :: 16 word) = of_char c"
proof -
  have "(of_char c :: nat) < 256" by (rule nat_of_char_less_256)
  then have "(of_char c :: nat) < 65536" by linarith
  then show ?thesis by (simp add: unat_of_nat)
qed

lemma Utf8_parse_ascii:
  "\<forall>c\<in>set s. (of_char c :: nat) < 0x80 \<Longrightarrow> Utf8_parse (js s) = Inr (ascii_octets s)"
proof (induction s)
  case Nil
  then show ?case by (simp add: js_def ascii_octets_def)
next
  case (Cons c s)
  then have c: "(of_char c :: nat) < 0x80" by simp
  have ih: "Utf8_parse (js s) = Inr (ascii_octets s)" using Cons by simp
  have i: "int (of_char c) = of_char c" by (rule of_nat_of_char)
  have "Utf8_parse (of_nat (of_char c) # js s) = Inr (bits_of 8 (of_char c) # ascii_octets s)"
    using c by (simp add: unat_js_char is_lead_surrogate_unat is_trail_surrogate_unat utf8_encode_def ih i
        del: bits_of.simps)
  then show ?case by (simp add: js_def ascii_octets_def del: bits_of.simps)
qed

lemma HmacSHA256_ascii:
  assumes "\<forall>c\<in>set m. (of_char c :: nat) < 0x80"
  shows "HmacSHA256 (js m) (KeyWordArray w) = Inr (hmac_sha256 w (ascii_octets m))"
    and "\<forall>c\<in>set k. (of_char c :: nat) < 0x80
      \<Longrightarrow> HmacSHA256 (js m) (KeyString (js k)) = Inr (hmac_sha256 (ascii_octets k) (ascii_octets m))"
  by (simp_all add: HmacSHA256_def Utf8_parse_ascii assms)

lemma kat_date:
  "hmac_sha256 (ascii_octets (''AWS4'' @ reference_secret)) (ascii_octets ''20150830'')
     = octets_of_hex ''0138c7a6cbd60aa727b2f653a522567439dfb9f3e72b21f9b25941a42f04a7cd''"
  by code_simp


lemma kat_region:
  "hmac_sha256 (octets_of_hex ''0138c7a6cbd60aa727b2f653a522567439dfb9f3e72b21f9b25941a42f04a7cd'')
       (ascii_octets ''us-east-1'')
     = octets_of_hex ''f33d5808504bf34812e5fade63308b424b244c59189be2a591dd2282c7cb563f''"
  by code_simp

lemma kat_service:
  "hmac_sha256 (octets_of_hex ''f33d5808504bf34812e5fade63308b424b244c59189be2a591dd2282c7cb563f'')
       (ascii_octets ''iam'')
     = octets_of_hex ''199e1f48c602a5ae77ce26a46906920e76fc8427aeaa53da643646fcda1ccfb0''"
  by code_simp

lemma kat_signing:
  "hmac_sha256 (octets_of_hex ''199e1f48c602a5ae77ce26a46906920e76fc8427aeaa53da643646fcda1ccfb0'')
       (ascii_octets ''aws4_request'')
     = octets_of_hex ''c4afb1cc5771d871763a393e44b703571b55cc28424d1a5e86da6ed3c154a4b9''"
  by code_simp

lemma kat_signature:
  "hmac_sha256 (octets_of_hex ''c4afb1cc5771d871763a393e44b703571b55cc28424d1a5e86da6ed3c154a4b9'')
       (ascii_octets (join_with (CHR 0x0A) reference_string_to_sign))
     = octets_of_hex ''5d672d79c15b13162d9279b0855cfba6789a8edb4c82c400e06b5924a6f2b5d7''"
  by code_simp

lemma kat_hex:
  "WordArray_toString (octets_of_hex ''c4afb1cc5771d871763a393e44b703571b55cc28424d1a5e86da6ed3c154a4b9'')
     = js ''c4afb1cc5771d871763a393e44b703571b55cc28424d1a5e86da6ed3c154a4b9''"
  "WordArray_toString (octets_of_hex ''5d672d79c15b13162d9279b0855cfba6789a8edb4c82c400e06b5924a6f2b5d7'')
     = js ''5d672d79c15b13162d9279b0855cfba6789a8edb4c82c400e06b5924a6f2b5d7''"
  unfolding WordArray_toString_def by (rule arg_cong[where f = js], code_simp)+

lemma reference_ascii:
  "\<forall>c\<in>set (''AWS4'' @ reference_secret). (of_char c :: nat) < 0x80"
  "\<forall>c\<in>set ''20150830''. (of_char c :: nat) < 0x80"
  "\<forall>c\<in>set ''us-east-1''. (of_char c :: nat) < 0x80"
  "\<forall>c\<in>set ''iam''. (of_char c :: nat) < 0x80"
  "\<forall>c\<in>set ''aws4_request''. (of_char c :: nat) < 0x80"
  "\<forall>c\<in>set (join_with (CHR 0x0A) reference_string_to_sign). (of_char c :: nat) < 0x80"
  by (simp_all add: reference_secret_def reference_string_to_sign_def)

lemma js_join: "js (join_with c ss) = join_with (of_nat (of_char c)) (map js ss)"
  by (induction c ss rule: join_with.induct) (simp_all add: js_def)

lemma createSigningKey_chain_eq:
  "map_sum id KeyWordArray (createSigningKey H secret dateStamp regionName service)
     = keyed_hash_chain H (KeyString (js ''AWS4'' @ secret))
         [dateStamp, regionName, service, js ''aws4_request'']"
  by (simp add: createSigningKey_def split: sum.splits)

lemma reference_signing_key:
  "createSigningKey HmacSHA256 (js reference_secret) (js ''20150830'') (js ''us-east-1'') (js ''iam'')
     = Inr (octets_of_hex ''c4afb1cc5771d871763a393e44b703571b55cc28424d1a5e86da6ed3c154a4b9'')"
  unfolding createSigningKey_def
  by (simp only: js_append[symmetric] HmacSHA256_ascii(2)[OF reference_ascii(2) reference_ascii(1)]
      HmacSHA256_ascii(1)[OF reference_ascii(3)] HmacSHA256_ascii(1)[OF reference_ascii(4)]
      HmacSHA256_ascii(1)[OF reference_ascii(5)]
      kat_date kat_region kat_service kat_signing sum.case)

lemma reference_signature:
  "calculate_signature HmacSHA256 WordArray_toString
       (join_with 0x0A (map js reference_string_to_sign))
       (octets_of_hex ''c4afb1cc5771d871763a393e44b703571b55cc28424d1a5e86da6ed3c154a4b9'')
     = Inr (js ''5d672d79c15b13162d9279b0855cfba6789a8edb4c82c400e06b5924a6f2b5d7'')"
proof -
  have j: "join_with 0x0A (map js reference_string_to_sign)
      = js (join_with (CHR 0x0A) reference_string_to_sign)"
    by (simp add: js_join)
  show ?thesis
    unfolding calculate_signature_def j
    by (simp only: HmacSHA256_ascii(1)[OF reference_ascii(6)] kat_signature kat_hex sum.case)
qed

text \<open>
  Claim C1. For every keyed hash function, \<open>createSigningKey\<close> is the chain of four stages
  over the date stamp, the region, the service and \<open>aws4_request\<close>, which starts from the
  key \<open>AWS4\<close> followed by the secret key and passes the raw output of each stage on as the
  key of the next; its result is the raw output of the last stage. With HMAC-SHA256, the key
  derived for the published example and the signature of the example's string to sign are
  the published values.
\<close>

theorem createSigningKey_chain:
  "map_sum id KeyWordArray (createSigningKey H secret dateStamp regionName service)
     = keyed_hash_chain H (KeyString (js ''AWS4'' @ secret))
         [dateStamp, regionName, service, js ''aws4_request'']
   \<and> map_sum id WordArray_toString
       (createSigningKey HmacSHA256 (js reference_secret) (js ''20150830'') (js ''us-east-1'') (js ''iam''))
     = Inr (js ''c4afb1cc5771d871763a393e44b703571b55cc28424d1a5e86da6ed3c154a4b9'')
   \<and> (case createSigningKey HmacSHA256 (js reference_secret) (js ''20150830'') (js ''us-east-1'')
            (js ''iam'') of
        Inl e \<Rightarrow> Inl e
      | Inr signingKey \<Rightarrow>
          calculate_signature HmacSHA256 WordArray_toString
            (join_with 0x0A (map js reference_string_to_sign)) signingKey)
     = Inr (js ''5d672d79c15b13162d9279b0855cfba6789a8edb4c82c400e06b5924a6f2b5d7'')"
  by (simp only: createSigningKey_chain_eq reference_signing_key reference_signature kat_hex
      sum.case map_sum.simps id_apply simp_thms)

end
